theory Spec2Isabelle
  imports Main "HOL-Library.Multiset"
begin

section \<open>Dates and durations\<close>

text \<open>
  The program works on naive UTC \<^verbatim>\<open>datetime\<close> values with microsecond resolution.
  A \<^verbatim>\<open>datetime\<close> is represented by its position on the proleptic Gregorian time
  line: the number of microseconds since 0001-01-01 00:00:00, the smallest value of the
  type. The largest one is 9999-12-31 23:59:59.999999, on day number 3652059.
\<close>

type_synonym datetime = int

definition US_PER_SECOND :: int where
  "US_PER_SECOND = 1000000"

definition SECONDS_PER_DAY :: int where
  "SECONDS_PER_DAY = 86400"

definition US_PER_DAY :: int where
  "US_PER_DAY = 86400000000"

definition MAXORDINAL :: int where
  "MAXORDINAL = 3652059"

definition MAX_DELTA_DAYS :: int where
  "MAX_DELTA_DAYS = 999999999"

definition valid_datetime :: "datetime \<Rightarrow> bool" where
  "valid_datetime t \<longleftrightarrow> 0 \<le> t \<and> t < MAXORDINAL * US_PER_DAY"

text \<open>The parts of a \<^verbatim>\<open>datetime\<close> that its arithmetic reads.\<close>

definition toordinal :: "datetime \<Rightarrow> int" where
  "toordinal t = t div US_PER_DAY + 1"

definition second_of_day :: "datetime \<Rightarrow> int" where
  "second_of_day t = (t mod US_PER_DAY) div US_PER_SECOND"

definition microsecond :: "datetime \<Rightarrow> int" where
  "microsecond t = t mod US_PER_SECOND"

text \<open>
  A \<^verbatim>\<open>timedelta\<close> is kept normalised: \<open>0 \<le> seconds < 86400\<close> and
  \<open>0 \<le> microseconds < 1000000\<close>, the sign living in \<open>days\<close> alone. The constructor
  carries microseconds into seconds and seconds into days with floor division.
\<close>

record timedelta =
  days :: int
  seconds :: int
  microseconds :: int

definition new_timedelta :: "int \<Rightarrow> int \<Rightarrow> int \<Rightarrow> timedelta" where
  "new_timedelta d s us =
     (let s1 = s + us div US_PER_SECOND;
          us1 = us mod US_PER_SECOND;
          d1 = d + s1 div SECONDS_PER_DAY;
          s2 = s1 mod SECONDS_PER_DAY
      in \<lparr>days = d1, seconds = s2, microseconds = us1\<rparr>)"

text \<open>The length of a \<^verbatim>\<open>timedelta\<close> in microseconds.\<close>

definition total_us :: "timedelta \<Rightarrow> int" where
  "total_us td = days td * US_PER_DAY + seconds td * US_PER_SECOND + microseconds td"

text \<open>\<^verbatim>\<open>datetime.__sub__\<close>: the difference of the day numbers, of the seconds of the
  day and of the microseconds, handed to the constructor.\<close>

definition datetime_sub :: "datetime \<Rightarrow> datetime \<Rightarrow> timedelta" where
  "datetime_sub a b =
     new_timedelta (toordinal a - toordinal b)
                   (second_of_day a - second_of_day b)
                   (microsecond a - microsecond b)"

text \<open>
  \<^verbatim>\<open>timedelta(days=n)\<close> raises \<^verbatim>\<open>OverflowError\<close> beyond 999999999 days, and
  \<^verbatim>\<open>datetime.__add__\<close> raises it when the sum leaves the years 1 to 9999: it adds the
  parts, normalises, and checks the resulting day number.
\<close>

datatype error =
    ValueError string
  | OverflowError
  | IntegrityError
  | AttributeError
  | HTTPException int string
  | CsvError

definition timedelta_of_days :: "int \<Rightarrow> error + timedelta" where
  "timedelta_of_days n =
     (if \<bar>n\<bar> > MAX_DELTA_DAYS then Inl OverflowError else Inr (new_timedelta n 0 0))"

definition datetime_add :: "datetime \<Rightarrow> timedelta \<Rightarrow> error + datetime" where
  "datetime_add t td =
     (let delta = new_timedelta (toordinal t + days td)
                                (second_of_day t + seconds td)
                                (microsecond t + microseconds td)
      in if 0 < days delta \<and> days delta \<le> MAXORDINAL
         then Inr ((days delta - 1) * US_PER_DAY + seconds delta * US_PER_SECOND
                   + microseconds delta)
         else Inl OverflowError)"

text \<open>\<^verbatim>\<open>d + timedelta(days=n)\<close>, the only sum the program forms.\<close>

definition datetime_add_days :: "datetime \<Rightarrow> int \<Rightarrow> error + datetime" where
  "datetime_add_days t n =
     (case timedelta_of_days n of
        Inl e \<Rightarrow> Inl e
      | Inr td \<Rightarrow> datetime_add t td)"

section \<open>Status Calculator\<close>

text \<open>
  \<^verbatim>\<open>calculate_service_status\<close> of \<^verbatim>\<open>app/services/service_logic.py\<close>. The source reads
  the clock with \<^verbatim>\<open>datetime.utcnow()\<close>; the reading is the first argument here.
\<close>

definition calculate_service_status :: "datetime \<Rightarrow> datetime \<Rightarrow> string \<times> int" where
  "calculate_service_status now next_service_date =
     (let days_until_due = days (datetime_sub next_service_date now)
      in if days_until_due < 0 then (''OVERDUE'', days_until_due)
         else if days_until_due \<le> 7 then (''DUE'', days_until_due)
         else (''UPCOMING'', days_until_due))"

section \<open>Stored data\<close>

text \<open>
  The three tables of \<^verbatim>\<open>app/models.py\<close>. The columns \<^verbatim>\<open>id\<close>, \<^verbatim>\<open>created_at\<close> and
  \<^verbatim>\<open>notes\<close> carry the table's initials, and the fields of the request and response
  schemas of \<^verbatim>\<open>app/schemas.py\<close> a prefix, since field names are global.
\<close>

record Vehicle =
  v_id :: int
  vehicle_number :: string
  owner_name :: string
  model :: string
  v_created_at :: datetime

record ServiceType =
  st_id :: int
  name :: string
  interval_days :: int

record ServiceRecord =
  sr_id :: int
  vehicle_id :: int
  service_type_id :: int
  service_date :: datetime
  next_service_date :: datetime
  sr_notes :: "string option"
  sr_created_at :: datetime

record VehicleCreate =
  vc_vehicle_number :: string
  vc_owner_name :: string
  vc_model :: string

record ServiceTypeCreate =
  stc_name :: string
  stc_interval_days :: int

record ServiceRecordCreate =
  src_vehicle_id :: int
  src_service_type_id :: int
  src_service_date :: datetime
  src_notes :: "string option"

text \<open>
  The database behind a \<^verbatim>\<open>Session\<close>: the rows of each table in insertion order and,
  for each integer primary key, the last value its sequence handed out. The constraints
  of the schema that the operations below can violate are checked at commit: the unique
  vehicle number and service-type name, and the foreign key from a service record to
  its vehicle. A sequence value is used up even when the insert fails.
\<close>

record Session =
  vehicles :: "Vehicle list"
  service_types :: "ServiceType list"
  service_records :: "ServiceRecord list"
  vehicles_id_seq :: int
  service_types_id_seq :: int
  service_records_id_seq :: int

section \<open>CRUD operations\<close>

text \<open>
  \<^verbatim>\<open>app/crud.py\<close>. An operation that writes returns the database it leaves behind
  together with its result; \<^verbatim>\<open>Inl\<close> is the exception raised. The clock reading that
  \<^verbatim>\<open>datetime.utcnow\<close> supplies is the argument \<open>now\<close>.
\<close>

text \<open>Python's \<^verbatim>\<open>str\<close> of an integer, used by the f-strings and by the CSV writer.\<close>

definition digit_char :: "nat \<Rightarrow> char" where
  "digit_char d = ''0123456789'' ! d"

fun digits :: "nat \<Rightarrow> string" where
  "digits n = (if n < 10 then [digit_char n]
               else digits (n div 10) @ [digit_char (n mod 10)])"

declare digits.simps [simp del]

definition str_int :: "int \<Rightarrow> string" where
  "str_int i = (if i < 0 then CHR ''-'' # digits (nat (- i)) else digits (nat i))"

definition create_vehicle ::
  "datetime \<Rightarrow> Session \<Rightarrow> VehicleCreate \<Rightarrow> Session \<times> (error + Vehicle)" where
  "create_vehicle now db vehicle =
     (let new_id = vehicles_id_seq db + 1;
          db_vehicle = \<lparr>v_id = new_id,
                        vehicle_number = vc_vehicle_number vehicle,
                        owner_name = vc_owner_name vehicle,
                        model = vc_model vehicle,
                        v_created_at = now\<rparr>
      in if \<exists>v \<in> set (vehicles db). vehicle_number v = vc_vehicle_number vehicle
         then (db\<lparr>vehicles_id_seq := new_id\<rparr>, Inl IntegrityError)
         else (db\<lparr>vehicles := vehicles db @ [db_vehicle], vehicles_id_seq := new_id\<rparr>,
               Inr db_vehicle))"

definition get_vehicle :: "Session \<Rightarrow> int \<Rightarrow> Vehicle option" where
  "get_vehicle db vid = find (\<lambda>v. v_id v = vid) (vehicles db)"

text \<open>Deleting a vehicle deletes its service records with it (\<^verbatim>\<open>cascade="all,
  delete-orphan"\<close>).\<close>

definition delete_vehicle :: "Session \<Rightarrow> int \<Rightarrow> Session \<times> bool" where
  "delete_vehicle db vid =
     (case get_vehicle db vid of
        Some vehicle \<Rightarrow>
          (db\<lparr>vehicles := filter (\<lambda>v. v_id v \<noteq> v_id vehicle) (vehicles db),
              service_records :=
                filter (\<lambda>r. vehicle_id r \<noteq> v_id vehicle) (service_records db)\<rparr>,
           True)
      | None \<Rightarrow> (db, False))"

definition create_service_type ::
  "Session \<Rightarrow> ServiceTypeCreate \<Rightarrow> Session \<times> (error + ServiceType)" where
  "create_service_type db service_type =
     (let new_id = service_types_id_seq db + 1;
          db_service_type = \<lparr>st_id = new_id,
                             name = stc_name service_type,
                             interval_days = stc_interval_days service_type\<rparr>
      in if \<exists>t \<in> set (service_types db). name t = stc_name service_type
         then (db\<lparr>service_types_id_seq := new_id\<rparr>, Inl IntegrityError)
         else (db\<lparr>service_types := service_types db @ [db_service_type],
                  service_types_id_seq := new_id\<rparr>,
               Inr db_service_type))"

definition get_service_type :: "Session \<Rightarrow> int \<Rightarrow> ServiceType option" where
  "get_service_type db tid = find (\<lambda>t. st_id t = tid) (service_types db)"

definition create_service_record ::
  "datetime \<Rightarrow> Session \<Rightarrow> ServiceRecordCreate \<Rightarrow> Session \<times> (error + ServiceRecord)" where
  "create_service_record now db service_record =
     (case get_service_type db (src_service_type_id service_record) of
        None \<Rightarrow>
          (db, Inl (ValueError (''Service type ''
                      @ str_int (src_service_type_id service_record) @ '' not found'')))
      | Some service_type \<Rightarrow>
          (case datetime_add_days (src_service_date service_record)
                                  (interval_days service_type) of
             Inl e \<Rightarrow> (db, Inl e)
           | Inr next_service \<Rightarrow>
               (let new_id = service_records_id_seq db + 1;
                    db_service_record =
                      \<lparr>sr_id = new_id,
                       vehicle_id = src_vehicle_id service_record,
                       service_type_id = src_service_type_id service_record,
                       service_date = src_service_date service_record,
                       next_service_date = next_service,
                       sr_notes = src_notes service_record,
                       sr_created_at = now\<rparr>
                in if get_vehicle db (src_vehicle_id service_record) = None
                   then (db\<lparr>service_records_id_seq := new_id\<rparr>, Inl IntegrityError)
                   else (db\<lparr>service_records := service_records db @ [db_service_record],
                            service_records_id_seq := new_id\<rparr>,
                         Inr db_service_record))))"

definition get_upcoming_services ::
  "datetime \<Rightarrow> Session \<Rightarrow> int \<Rightarrow> error + ServiceRecord list" where
  "get_upcoming_services now db days_ahead =
     (case datetime_add_days now days_ahead of
        Inl e \<Rightarrow> Inl e
      | Inr future \<Rightarrow>
          Inr (sort_key next_service_date
                 (filter (\<lambda>r. next_service_date r \<ge> now \<and> next_service_date r \<le> future)
                         (service_records db))))"

text \<open>
  The writes that can follow one another on a database: the four writing operations
  above and, since the program itself never updates a service type, a change of a
  service type's interval made behind its back.
\<close>

datatype operation =
    CreateVehicle datetime VehicleCreate
  | DeleteVehicle int
  | CreateServiceType ServiceTypeCreate
  | CreateServiceRecord datetime ServiceRecordCreate
  | ChangeInterval int int

fun apply_operation :: "Session \<Rightarrow> operation \<Rightarrow> Session" where
  "apply_operation db (CreateVehicle now vehicle) = fst (create_vehicle now db vehicle)"
| "apply_operation db (DeleteVehicle vid) = fst (delete_vehicle db vid)"
| "apply_operation db (CreateServiceType service_type) =
     fst (create_service_type db service_type)"
| "apply_operation db (CreateServiceRecord now service_record) =
     fst (create_service_record now db service_record)"
| "apply_operation db (ChangeInterval tid n) =
     db\<lparr>service_types :=
          map (\<lambda>t. if st_id t = tid then t\<lparr>interval_days := n\<rparr> else t) (service_types db)\<rparr>"

text \<open>Every stored service record got its key from the sequence.\<close>

definition ids_in_sequence :: "Session \<Rightarrow> bool" where
  "ids_in_sequence db \<longleftrightarrow>
     list_all (\<lambda>r. sr_id r \<le> service_records_id_seq db) (service_records db)"

section \<open>Route handler\<close>

text \<open>
  \<^verbatim>\<open>create_service_record\<close> of \<^verbatim>\<open>app/routes/services.py\<close>: it looks up the vehicle,
  then the service type, answers 404 for the first one missing, and turns a
  \<^verbatim>\<open>ValueError\<close> of the CRUD operation into a 400.
\<close>

definition routes_create_service_record ::
  "datetime \<Rightarrow> Session \<Rightarrow> ServiceRecordCreate \<Rightarrow> Session \<times> (error + ServiceRecord)" where
  "routes_create_service_record now db service_record =
     (case get_vehicle db (src_vehicle_id service_record) of
        None \<Rightarrow>
          (db, Inl (HTTPException 404 (''Vehicle with ID ''
                      @ str_int (src_vehicle_id service_record) @ '' not found'')))
      | Some vehicle \<Rightarrow>
          (case get_service_type db (src_service_type_id service_record) of
             None \<Rightarrow>
               (db, Inl (HTTPException 404 (''Service type with ID ''
                           @ str_int (src_service_type_id service_record) @ '' not found'')))
           | Some service_type \<Rightarrow>
               (case create_service_record now db service_record of
                  (db', Inl (ValueError e)) \<Rightarrow> (db', Inl (HTTPException 400 e))
                | (db', result) \<Rightarrow> (db', result))))"

section \<open>Detail views and history\<close>

text \<open>
  \<^verbatim>\<open>app/services/service_logic.py\<close>. The attributes \<^verbatim>\<open>record.vehicle\<close> and
  \<^verbatim>\<open>record.service_type\<close> are loaded through the session by the foreign key; on a row
  whose link does not resolve they are \<^verbatim>\<open>None\<close>, and reading a field of them raises
  \<^verbatim>\<open>AttributeError\<close>.
\<close>

record ServiceRecordDetailResponse =
  d_id :: int
  d_vehicle_id :: int
  d_vehicle_number :: string
  d_owner_name :: string
  d_model :: string
  d_service_type_id :: int
  d_service_type_name :: string
  d_service_date :: datetime
  d_next_service_date :: datetime
  d_notes :: "string option"
  d_status :: string
  d_days_until_due :: int

record VehicleResponse =
  vr_id :: int
  vr_vehicle_number :: string
  vr_owner_name :: string
  vr_model :: string
  vr_created_at :: datetime

record ServiceHistoryResponse =
  h_vehicle :: VehicleResponse
  h_service_records :: "ServiceRecordDetailResponse list"

definition rel_vehicle :: "Session \<Rightarrow> ServiceRecord \<Rightarrow> Vehicle option" where
  "rel_vehicle db r = get_vehicle db (vehicle_id r)"

definition rel_service_type :: "Session \<Rightarrow> ServiceRecord \<Rightarrow> ServiceType option" where
  "rel_service_type db r = get_service_type db (service_type_id r)"

definition build_service_detail_response ::
  "datetime \<Rightarrow> ServiceRecord \<Rightarrow> Session \<Rightarrow> error + ServiceRecordDetailResponse" where
  "build_service_detail_response now service_record db =
     (case calculate_service_status now (next_service_date service_record) of
        (status, days_until) \<Rightarrow>
          (case rel_vehicle db service_record of
             None \<Rightarrow> Inl AttributeError
           | Some vehicle \<Rightarrow>
               (case rel_service_type db service_record of
                  None \<Rightarrow> Inl AttributeError
                | Some service_type \<Rightarrow>
                    Inr \<lparr>d_id = sr_id service_record,
                         d_vehicle_id = vehicle_id service_record,
                         d_vehicle_number = vehicle_number vehicle,
                         d_owner_name = owner_name vehicle,
                         d_model = model vehicle,
                         d_service_type_id = service_type_id service_record,
                         d_service_type_name = name service_type,
                         d_service_date = service_date service_record,
                         d_next_service_date = next_service_date service_record,
                         d_notes = sr_notes service_record,
                         d_status = status,
                         d_days_until_due = days_until\<rparr>)))"

text \<open>
  Every call of the calculator reads the clock anew. A function that handles several
  records takes the readings as \<open>clock\<close>: \<open>clock k\<close> is the reading made for the
  record at position \<open>k\<close>. The list comprehension stops at the first record that raises.
\<close>

type_synonym clock = "nat \<Rightarrow> datetime"

fun detailed_records ::
  "clock \<Rightarrow> nat \<Rightarrow> ServiceRecord list \<Rightarrow> Session
     \<Rightarrow> error + ServiceRecordDetailResponse list" where
  "detailed_records clock k [] db = Inr []"
| "detailed_records clock k (record # records) db =
     (case build_service_detail_response (clock k) record db of
        Inl e \<Rightarrow> Inl e
      | Inr d \<Rightarrow>
          (case detailed_records clock (Suc k) records db of
             Inl e \<Rightarrow> Inl e
           | Inr ds \<Rightarrow> Inr (d # ds)))"

definition from_orm :: "Vehicle \<Rightarrow> VehicleResponse" where
  "from_orm vehicle =
     \<lparr>vr_id = v_id vehicle,
      vr_vehicle_number = vehicle_number vehicle,
      vr_owner_name = owner_name vehicle,
      vr_model = model vehicle,
      vr_created_at = v_created_at vehicle\<rparr>"

definition build_service_history ::
  "clock \<Rightarrow> Vehicle \<Rightarrow> ServiceRecord list \<Rightarrow> Session \<Rightarrow> error + ServiceHistoryResponse" where
  "build_service_history clock vehicle records db =
     (case detailed_records clock 0 records db of
        Inl e \<Rightarrow> Inl e
      | Inr ds \<Rightarrow> Inr \<lparr>h_vehicle = from_orm vehicle, h_service_records = ds\<rparr>)"

section \<open>Formatting a date\<close>

text \<open>
  \<^verbatim>\<open>strftime("%Y-%m-%d %H:%M:%S")\<close>. Year, month and day come from the day number by
  the library's \<^verbatim>\<open>_ord2ymd\<close>: it counts whole 400-year, 100-year and 4-year cycles and
  whole years, estimates the month from the day of the year and corrects the estimate.
  The tables are indexed by the month, from 1. Each directive prints its number in
  decimal, filled with zeros to four digits for the year and to two for the others.
\<close>

definition DI400Y :: int where
  "DI400Y = 146097"

definition DI100Y :: int where
  "DI100Y = 36524"

definition DI4Y :: int where
  "DI4Y = 1461"

definition DAYS_IN_MONTH :: "int list" where
  "DAYS_IN_MONTH = [-1, 31, 28, 31, 30, 31, 30, 31, 31, 30, 31, 30, 31]"

definition DAYS_BEFORE_MONTH :: "int list" where
  "DAYS_BEFORE_MONTH = [-1, 0, 31, 59, 90, 120, 151, 181, 212, 243, 273, 304, 334]"

definition ord2ymd :: "int \<Rightarrow> int \<times> int \<times> int" where
  "ord2ymd ordinal =
     (let n = ordinal - 1;
          n400 = n div DI400Y; n = n mod DI400Y;
          year = n400 * 400 + 1;
          n100 = n div DI100Y; n = n mod DI100Y;
          n4 = n div DI4Y; n = n mod DI4Y;
          n1 = n div 365; n = n mod 365;
          year = year + n100 * 100 + n4 * 4 + n1
      in if n1 = 4 \<or> n100 = 4 then (year - 1, 12, 31)
         else
           (let leapyear = (n1 = 3 \<and> (n4 \<noteq> 24 \<or> n100 = 3));
                month = (n + 50) div 32;
                preceding = DAYS_BEFORE_MONTH ! nat month
                            + (if month > 2 \<and> leapyear then 1 else 0)
            in if preceding > n
               then (let month = month - 1;
                         preceding = preceding
                           - (DAYS_IN_MONTH ! nat month
                              + (if month = 2 \<and> leapyear then 1 else 0))
                     in (year, month, n - preceding + 1))
               else (year, month, n - preceding + 1)))"

definition zfill :: "nat \<Rightarrow> string \<Rightarrow> string" where
  "zfill width s = replicate (width - length s) CHR ''0'' @ s"

definition strftime :: "datetime \<Rightarrow> string" where
  "strftime t =
     (case ord2ymd (toordinal t) of
        (year, month, day) \<Rightarrow>
          (let hour = second_of_day t div 3600;
               minute = (second_of_day t mod 3600) div 60;
               second = second_of_day t mod 60
           in zfill 4 (digits (nat year)) @ ''-'' @ zfill 2 (digits (nat month)) @ ''-''
              @ zfill 2 (digits (nat day)) @ '' ''
              @ zfill 2 (digits (nat hour)) @ '':'' @ zfill 2 (digits (nat minute)) @ '':''
              @ zfill 2 (digits (nat second))))"


section \<open>CSV writer\<close>

text \<open>
  \<^verbatim>\<open>csv.writer\<close> with its default dialect: fields separated by a comma, rows ended by
  carriage return and line feed, a field quoted only when it contains the delimiter, the
  quote character or a character of the line terminator, and a quote inside a quoted
  field doubled. A row of one empty field is written as a pair of quotes.
\<close>

definition DELIMITER :: char where
  "DELIMITER = CHR '',''"

definition QUOTECHAR :: char where
  "QUOTECHAR = CHR 0x22"

definition CR :: char where
  "CR = CHR 0x0D"

definition LF :: char where
  "LF = CHR 0x0A"

definition LINETERMINATOR :: string where
  "LINETERMINATOR = [CR, LF]"

fun join_append_data :: "string \<Rightarrow> string \<times> bool" where
  "join_append_data [] = ([], False)"
| "join_append_data (c # cs) =
     (case join_append_data cs of
        (data, quoted) \<Rightarrow>
          if c = QUOTECHAR then (QUOTECHAR # c # data, True)
          else if c = DELIMITER \<or> c \<in> set LINETERMINATOR then (c # data, True)
          else (c # data, quoted))"

definition join_append :: "string \<Rightarrow> string" where
  "join_append field =
     (case join_append_data field of
        (data, quoted) \<Rightarrow> if quoted then QUOTECHAR # data @ [QUOTECHAR] else data)"

fun join_record :: "string list \<Rightarrow> string" where
  "join_record [] = []"
| "join_record [f] = join_append f"
| "join_record (f # fs) = join_append f @ DELIMITER # join_record fs"

definition writerow :: "string list \<Rightarrow> string" where
  "writerow row =
     (if row = [[]] then [QUOTECHAR, QUOTECHAR] else join_record row) @ LINETERMINATOR"

section \<open>CSV Serializer\<close>

text \<open>
  \<^verbatim>\<open>generate_csv_data\<close> of \<^verbatim>\<open>app/services/service_logic.py\<close>. The writer appends to
  the text written so far; the loop hands that text on from record to record.
\<close>

definition HEADER :: "string list" where
  "HEADER = [''Service ID'', ''Vehicle Number'', ''Owner Name'', ''Model'', ''Service Type'',
             ''Service Date'', ''Next Service Date'', ''Status'', ''Days Until Due'', ''Notes'']"

text \<open>\<^verbatim>\<open>record.notes or ""\<close>: the notes, or the empty string for \<^verbatim>\<open>None\<close> and for empty
  notes.\<close>

definition notes_or_empty :: "string option \<Rightarrow> string" where
  "notes_or_empty n = (case n of None \<Rightarrow> [] | Some s \<Rightarrow> if s = [] then [] else s)"

definition csv_row :: "datetime \<Rightarrow> ServiceRecord \<Rightarrow> Session \<Rightarrow> error + string list" where
  "csv_row now record db =
     (case calculate_service_status now (next_service_date record) of
        (status, days_until) \<Rightarrow>
          (case rel_vehicle db record of
             None \<Rightarrow> Inl AttributeError
           | Some vehicle \<Rightarrow>
               (case rel_service_type db record of
                  None \<Rightarrow> Inl AttributeError
                | Some service_type \<Rightarrow>
                    Inr [str_int (sr_id record),
                         vehicle_number vehicle,
                         owner_name vehicle,
                         model vehicle,
                         name service_type,
                         strftime (service_date record),
                         strftime (next_service_date record),
                         status,
                         str_int days_until,
                         notes_or_empty (sr_notes record)])))"

fun write_rows ::
  "clock \<Rightarrow> nat \<Rightarrow> ServiceRecord list \<Rightarrow> Session \<Rightarrow> string \<Rightarrow> error + string" where
  "write_rows clock k [] db output = Inr output"
| "write_rows clock k (record # records) db output =
     (case csv_row (clock k) record db of
        Inl e \<Rightarrow> Inl e
      | Inr row \<Rightarrow> write_rows clock (Suc k) records db (output @ writerow row))"

definition generate_csv_data :: "clock \<Rightarrow> ServiceRecord list \<Rightarrow> Session \<Rightarrow> error + string" where
  "generate_csv_data clock records db = write_rows clock 0 records db (writerow HEADER)"

section \<open>CSV reader\<close>

text \<open>
  The reader against which the written text is checked: \<^verbatim>\<open>csv.reader\<close> with the same
  default dialect, over the text opened with \<^verbatim>\<open>newline=''\<close>, so that a line ends after
  a line feed, after a carriage return and line feed, or after a lone carriage return,
  and keeps its ending. The reader is a state machine over the characters of a line,
  which sees the end of each line as one more input, \<open>None\<close> here. A row is complete
  when a line ends outside of a quoted field.
\<close>

datatype parser_state =
    START_RECORD
  | START_FIELD
  | IN_FIELD
  | IN_QUOTED_FIELD
  | QUOTE_IN_QUOTED_FIELD
  | EAT_CRNL

record reader =
  rd_state :: parser_state
  rd_field :: string
  rd_fields :: "string list"

definition parse_reset :: reader where
  "parse_reset = \<lparr>rd_state = START_RECORD, rd_field = [], rd_fields = []\<rparr>"

definition parse_save_field :: "reader \<Rightarrow> reader" where
  "parse_save_field r = r\<lparr>rd_fields := rd_fields r @ [rd_field r], rd_field := []\<rparr>"

definition parse_add_char :: "reader \<Rightarrow> char \<Rightarrow> reader" where
  "parse_add_char r c = r\<lparr>rd_field := rd_field r @ [c]\<rparr>"

text \<open>The state \<open>START_RECORD\<close> treats every character but a line ending as
  \<open>START_FIELD\<close> does.\<close>

definition start_field :: "reader \<Rightarrow> char option \<Rightarrow> error + reader" where
  "start_field r c =
     (case c of
        None \<Rightarrow> Inr ((parse_save_field r)\<lparr>rd_state := START_RECORD\<rparr>)
      | Some ch \<Rightarrow>
          if ch = LF \<or> ch = CR then Inr ((parse_save_field r)\<lparr>rd_state := EAT_CRNL\<rparr>)
          else if ch = QUOTECHAR then Inr (r\<lparr>rd_state := IN_QUOTED_FIELD\<rparr>)
          else if ch = DELIMITER then Inr (parse_save_field r)
          else Inr ((parse_add_char r ch)\<lparr>rd_state := IN_FIELD\<rparr>))"

definition parse_process_char :: "reader \<Rightarrow> char option \<Rightarrow> error + reader" where
  "parse_process_char r c =
     (case rd_state r of
        START_RECORD \<Rightarrow>
          (case c of
             None \<Rightarrow> Inr r
           | Some ch \<Rightarrow>
               if ch = LF \<or> ch = CR then Inr (r\<lparr>rd_state := EAT_CRNL\<rparr>)
               else start_field (r\<lparr>rd_state := START_FIELD\<rparr>) c)
      | START_FIELD \<Rightarrow> start_field r c
      | IN_FIELD \<Rightarrow>
          (case c of
             None \<Rightarrow> Inr ((parse_save_field r)\<lparr>rd_state := START_RECORD\<rparr>)
           | Some ch \<Rightarrow>
               if ch = LF \<or> ch = CR then Inr ((parse_save_field r)\<lparr>rd_state := EAT_CRNL\<rparr>)
               else if ch = DELIMITER then Inr ((parse_save_field r)\<lparr>rd_state := START_FIELD\<rparr>)
               else Inr (parse_add_char r ch))
      | IN_QUOTED_FIELD \<Rightarrow>
          (case c of
             None \<Rightarrow> Inr r
           | Some ch \<Rightarrow>
               if ch = QUOTECHAR then Inr (r\<lparr>rd_state := QUOTE_IN_QUOTED_FIELD\<rparr>)
               else Inr (parse_add_char r ch))
      | QUOTE_IN_QUOTED_FIELD \<Rightarrow>
          (case c of
             None \<Rightarrow> Inr ((parse_save_field r)\<lparr>rd_state := START_RECORD\<rparr>)
           | Some ch \<Rightarrow>
               if ch = QUOTECHAR then Inr ((parse_add_char r ch)\<lparr>rd_state := IN_QUOTED_FIELD\<rparr>)
               else if ch = DELIMITER then Inr ((parse_save_field r)\<lparr>rd_state := START_FIELD\<rparr>)
               else if ch = LF \<or> ch = CR then Inr ((parse_save_field r)\<lparr>rd_state := EAT_CRNL\<rparr>)
               else Inr ((parse_add_char r ch)\<lparr>rd_state := IN_FIELD\<rparr>))
      | EAT_CRNL \<Rightarrow>
          (case c of
             None \<Rightarrow> Inr (r\<lparr>rd_state := START_RECORD\<rparr>)
           | Some ch \<Rightarrow> if ch = LF \<or> ch = CR then Inr r else Inl CsvError))"

fun process_chars :: "reader \<Rightarrow> char option list \<Rightarrow> error + reader" where
  "process_chars r [] = Inr r"
| "process_chars r (c # cs) =
     (case parse_process_char r c of
        Inl e \<Rightarrow> Inl e
      | Inr r' \<Rightarrow> process_chars r' cs)"

text \<open>The lines of a text, each with its ending; \<open>line\<close> is the part of the current
  line that has been passed.\<close>

fun split_lines :: "string \<Rightarrow> string \<Rightarrow> string list" where
  "split_lines line [] = (if line = [] then [] else [line])"
| "split_lines line (c # cs) =
     (if c = LF then (line @ [c]) # split_lines [] cs
      else if c = CR then
        (case cs of
           [] \<Rightarrow> [line @ [c]]
         | d # ds \<Rightarrow>
             if d = LF then (line @ [c, d]) # split_lines [] ds
             else (line @ [c]) # split_lines [] cs)
      else split_lines (line @ [c]) cs)"

text \<open>
  The iteration of the reader: it starts each row from \<open>parse_reset\<close>, consumes lines
  until one ends in the state \<open>START_RECORD\<close>, and returns the fields collected. When
  the lines run out inside a row, the row is returned if a field was begun.
\<close>

fun read_rows :: "reader \<Rightarrow> string list \<Rightarrow> error + string list list" where
  "read_rows r [] =
     (if rd_field r \<noteq> [] \<or> rd_state r = IN_QUOTED_FIELD
      then Inr [rd_fields (parse_save_field r)] else Inr [])"
| "read_rows r (line # lines) =
     (case process_chars r (map Some line @ [None]) of
        Inl e \<Rightarrow> Inl e
      | Inr r' \<Rightarrow>
          if rd_state r' = START_RECORD
          then (case read_rows parse_reset lines of
                  Inl e \<Rightarrow> Inl e
                | Inr rows \<Rightarrow> Inr (rd_fields r' # rows))
          else read_rows r' lines)"

definition csv_reader :: "string \<Rightarrow> error + string list list" where
  "csv_reader text = read_rows parse_reset (split_lines [] text)"

subsection \<open>The reader on the whole text\<close>

text \<open>
  The same reading, told character by character: \<open>line_end c cs\<close> says that a line ends
  after the character \<open>c\<close> when the text goes on with \<open>cs\<close>.
\<close>

definition line_end :: "char \<Rightarrow> string \<Rightarrow> bool" where
  "line_end c cs \<longleftrightarrow>
     c = LF \<or> (c = CR \<and> (case cs of [] \<Rightarrow> True | d # ds \<Rightarrow> d \<noteq> LF)) \<or> cs = []"

fun feed :: "reader \<Rightarrow> string \<Rightarrow> error + string list list" where
  "feed r [] =
     (if rd_field r \<noteq> [] \<or> rd_state r = IN_QUOTED_FIELD
      then Inr [rd_fields (parse_save_field r)] else Inr [])"
| "feed r (c # cs) =
     (case parse_process_char r (Some c) of
        Inl e \<Rightarrow> Inl e
      | Inr r1 \<Rightarrow>
          if line_end c cs
          then (case parse_process_char r1 None of
                  Inl e \<Rightarrow> Inl e
                | Inr r2 \<Rightarrow>
                    if rd_state r2 = START_RECORD
                    then (case feed parse_reset cs of
                            Inl e \<Rightarrow> Inl e
                          | Inr rows \<Rightarrow> Inr (rd_fields r2 # rows))
                    else feed r2 cs)
          else feed r1 cs)"

declare feed.simps [simp del]

text \<open>A character that the writer leaves as it is and that does not make it quote
  the field.\<close>

definition plain :: "char \<Rightarrow> bool" where
  "plain c \<longleftrightarrow> c \<noteq> QUOTECHAR \<and> c \<noteq> DELIMITER \<and> c \<noteq> CR \<and> c \<noteq> LF"

text \<open>The states in which the reader has a field in hand that a delimiter or a line
  ending completes.\<close>

definition field_done :: "reader \<Rightarrow> bool" where
  "field_done r \<longleftrightarrow> rd_state r = START_FIELD \<or> rd_state r = IN_FIELD
                     \<or> rd_state r = QUOTE_IN_QUOTED_FIELD"

section \<open>Example data\<close>

text \<open>
  A small database on which the theorems below are instantiated: one vehicle, one
  service type with an interval of 90 days, and the clock at 2026-01-01 00:00:00.
\<close>

definition example_now :: datetime where
  "example_now = 63902822400000000"

definition example_vehicle :: Vehicle where
  "example_vehicle =
     \<lparr>v_id = 1, vehicle_number = ''KA01AB1234'', owner_name = ''A. Owner'',
      model = ''Swift'', v_created_at = 63902822400000000\<rparr>"

definition example_service_type :: ServiceType where
  "example_service_type = \<lparr>st_id = 1, name = ''Oil Change'', interval_days = 90\<rparr>"

definition example_db :: Session where
  "example_db =
     \<lparr>vehicles = [example_vehicle], service_types = [example_service_type],
      service_records = [],
      vehicles_id_seq = 1, service_types_id_seq = 1, service_records_id_seq = 0\<rparr>"

definition example_request :: ServiceRecordCreate where
  "example_request =
     \<lparr>src_vehicle_id = 1, src_service_type_id = 1,
      src_service_date = 63902822400000000, src_notes = None\<rparr>"

text \<open>A request that names a service type that is not stored.\<close>

definition example_unknown_request :: ServiceRecordCreate where
  "example_unknown_request =
     \<lparr>src_vehicle_id = 1, src_service_type_id = 7,
      src_service_date = 63902822400000000, src_notes = None\<rparr>"

text \<open>A request that names neither a stored vehicle nor a stored service type.\<close>

definition example_orphan_request :: ServiceRecordCreate where
  "example_orphan_request =
     \<lparr>src_vehicle_id = 9, src_service_type_id = 7,
      src_service_date = 63902822400000000, src_notes = None\<rparr>"

text \<open>The record that \<open>example_request\<close> creates, due on 2026-04-01 00:00:00.\<close>

definition example_record :: ServiceRecord where
  "example_record =
     \<lparr>sr_id = 1, vehicle_id = 1, service_type_id = 1,
      service_date = 63902822400000000, next_service_date = 63910598400000000,
      sr_notes = None, sr_created_at = 63902822400000000\<rparr>"

text \<open>A second record of the same vehicle, due on 2025-12-31 00:00:00, and a database
  that stores both.\<close>

definition example_second_record :: ServiceRecord where
  "example_second_record =
     \<lparr>sr_id = 2, vehicle_id = 1, service_type_id = 1,
      service_date = 63894960000000000, next_service_date = 63902736000000000,
      sr_notes = Some ''checked, ok'', sr_created_at = 63902822400000000\<rparr>"

definition example_store :: Session where
  "example_store =
     example_db\<lparr>service_records := [example_record, example_second_record],
                service_records_id_seq := 2\<rparr>"

text \<open>The text that the serializer writes for the two records of \<open>example_store\<close>.\<close>

definition example_csv :: string where
  "example_csv =
     ''Service ID,Vehicle Number,Owner Name,Model,Service Type,Service Date,Next Service Date,Status,Days Until Due,Notes''
       @ [CR, LF]
     @ ''1,KA01AB1234,A. Owner,Swift,Oil Change,2026-01-01 00:00:00,2026-04-01 00:00:00,UPCOMING,90,''
       @ [CR, LF]
     @ ''2,KA01AB1234,A. Owner,Swift,Oil Change,2025-10-02 00:00:00,2025-12-31 00:00:00,OVERDUE,-1,''
       @ [QUOTECHAR] @ ''checked, ok'' @ [QUOTECHAR, CR, LF]"

section \<open>Properties of the Status Calculator\<close>

lemma floor_div_lower: "0 < (D::int) \<Longrightarrow> x div D * D \<le> x"
  by (metis div_mult_mod_eq le_add_same_cancel1 pos_mod_sign)

lemma floor_div_upper: "0 < (D::int) \<Longrightarrow> x < (x div D + 1) * D"
  by (metis div_mult_mod_eq distrib_right mult_1 add_strict_left_mono pos_mod_bound)

lemma div_mult_add_small: "0 \<le> r \<Longrightarrow> r < k \<Longrightarrow> (a * k + r) div k = (a::int)"
  by (simp add: div_pos_pos_trivial)

lemma datetime_split:
  "t = (toordinal t - 1) * US_PER_DAY + second_of_day t * US_PER_SECOND + microsecond t"
proof -
  have "t mod US_PER_DAY = second_of_day t * US_PER_SECOND + (t mod US_PER_DAY) mod US_PER_SECOND"
    unfolding second_of_day_def by simp
  moreover have "(t mod US_PER_DAY) mod US_PER_SECOND = microsecond t"
    unfolding microsecond_def US_PER_DAY_def US_PER_SECOND_def
    by (simp add: mod_mod_cancel)
  moreover have "t = (toordinal t - 1) * US_PER_DAY + t mod US_PER_DAY"
    unfolding toordinal_def by simp
  ultimately show ?thesis by simp
qed

lemma new_timedelta_days:
  "days (new_timedelta d s us) = (d * US_PER_DAY + s * US_PER_SECOND + us) div US_PER_DAY"
proof -
  define s1 where "s1 = s + us div US_PER_SECOND"
  have us: "us = (us div US_PER_SECOND) * US_PER_SECOND + us mod US_PER_SECOND"
    by simp
  have total: "d * US_PER_DAY + s * US_PER_SECOND + us
             = (d * SECONDS_PER_DAY + s1) * US_PER_SECOND + us mod US_PER_SECOND"
    unfolding s1_def US_PER_DAY_def SECONDS_PER_DAY_def US_PER_SECOND_def
    by (simp add: algebra_simps)
  have r: "0 \<le> us mod US_PER_SECOND" "us mod US_PER_SECOND < US_PER_SECOND"
    unfolding US_PER_SECOND_def by simp_all
  have "(d * US_PER_DAY + s * US_PER_SECOND + us) div US_PER_DAY
        = ((d * SECONDS_PER_DAY + s1) * US_PER_SECOND + us mod US_PER_SECOND)
          div (US_PER_SECOND * SECONDS_PER_DAY)"
    using total unfolding US_PER_DAY_def SECONDS_PER_DAY_def US_PER_SECOND_def by simp
  also have "\<dots> = (((d * SECONDS_PER_DAY + s1) * US_PER_SECOND + us mod US_PER_SECOND)
          div US_PER_SECOND) div SECONDS_PER_DAY"
    by (rule zdiv_zmult2_eq) (simp add: SECONDS_PER_DAY_def)
  also have "\<dots> = (d * SECONDS_PER_DAY + s1) div SECONDS_PER_DAY"
    using r by (simp add: div_mult_add_small)
  also have "\<dots> = d + s1 div SECONDS_PER_DAY"
    unfolding SECONDS_PER_DAY_def by simp
  finally show ?thesis
    unfolding new_timedelta_def s1_def by (simp add: Let_def)
qed

lemma datetime_sub_days: "days (datetime_sub a b) = (a - b) div US_PER_DAY"
proof -
  have "(toordinal a - toordinal b) * US_PER_DAY
        + (second_of_day a - second_of_day b) * US_PER_SECOND
        + (microsecond a - microsecond b) = a - b"
    using datetime_split [of a] datetime_split [of b] by (simp add: algebra_simps)
  then show ?thesis
    unfolding datetime_sub_def by (simp add: new_timedelta_days)
qed

text \<open>
  C1. For every due date and clock reading the calculator returns the whole-day count
  \<open>d\<close> of (due date minus now), rounded toward negative infinity, i.e. the integer with
  \<open>d days \<le> due - now < d + 1 days\<close>, together with the label OVERDUE when
  \<open>d < 0\<close>, DUE when \<open>0 \<le> d \<le> 7\<close> and UPCOMING when \<open>d > 7\<close>.
\<close>

theorem calculate_service_status_rule:
  "\<exists>d. calculate_service_status now due =
          (if d < 0 then ''OVERDUE'' else if d \<le> 7 then ''DUE'' else ''UPCOMING'', d)
       \<and> d * US_PER_DAY \<le> due - now \<and> due - now < (d + 1) * US_PER_DAY"
proof -
  let ?d = "(due - now) div US_PER_DAY"
  have pos: "0 < US_PER_DAY" unfolding US_PER_DAY_def by simp
  have lo: "?d * US_PER_DAY \<le> due - now"
    using pos by (rule floor_div_lower)
  have hi: "due - now < (?d + 1) * US_PER_DAY"
    using pos by (rule floor_div_upper)
  have "calculate_service_status now due =
          (if ?d < 0 then ''OVERDUE'' else if ?d \<le> 7 then ''DUE'' else ''UPCOMING'', ?d)"
    unfolding calculate_service_status_def by (simp add: datetime_sub_days Let_def)
  with lo hi show ?thesis by blast
qed

text \<open>
  C2. The calculator is a function of the due date and the clock reading alone: equal
  inputs give the equal label and day count. It has no error condition: the one check
  that the subtraction of two \<^verbatim>\<open>datetime\<close> values makes, that the difference counts
  at most 999999999 days, never fails for two values of the type, and the label is
  always one of the three.
\<close>

theorem calculate_service_status_pure:
  "(due1 = due2 \<and> now1 = now2 \<longrightarrow>
      calculate_service_status now1 due1 = calculate_service_status now2 due2)
   \<and> (valid_datetime due1 \<and> valid_datetime now1 \<longrightarrow>
      \<bar>days (datetime_sub due1 now1)\<bar> \<le> MAX_DELTA_DAYS)
   \<and> fst (calculate_service_status now1 due1) \<in> {''OVERDUE'', ''DUE'', ''UPCOMING''}"
proof -
  have "\<bar>(due1 - now1) div US_PER_DAY\<bar> \<le> MAX_DELTA_DAYS"
    if "valid_datetime due1" "valid_datetime now1"
    using that unfolding valid_datetime_def MAXORDINAL_def MAX_DELTA_DAYS_def US_PER_DAY_def
    by linarith
  moreover have "fst (calculate_service_status now1 due1) \<in> {''OVERDUE'', ''DUE'', ''UPCOMING''}"
    unfolding calculate_service_status_def by (simp add: Let_def)
  ultimately show ?thesis by (simp add: datetime_sub_days)
qed

theorem calculate_service_status_pure_witness:
  "valid_datetime 63902908800000000 \<and> valid_datetime 63929737815000000
   \<and> calculate_service_status 63929737815000000 63902908800000000 = (''OVERDUE'', -311)
   \<and> \<bar>days (datetime_sub 63902908800000000 63929737815000000)\<bar> \<le> MAX_DELTA_DAYS"
  using calculate_service_status_pure
          [of 63902908800000000 63902908800000000 63929737815000000 63929737815000000]
  by (simp add: valid_datetime_def MAXORDINAL_def US_PER_DAY_def calculate_service_status_def
        datetime_sub_days Let_def)

text \<open>
  C6. A due date strictly before the clock reading, by as little as one microsecond, is
  OVERDUE with a strictly negative day count.
\<close>

theorem calculate_service_status_past:
  assumes "due < now"
  shows "fst (calculate_service_status now due) = ''OVERDUE''
       \<and> snd (calculate_service_status now due) < 0"
proof -
  have "(due - now) div US_PER_DAY < 0"
    using assms unfolding US_PER_DAY_def by (simp add: neg_imp_zdiv_neg_iff)
  then show ?thesis
    unfolding calculate_service_status_def by (simp add: datetime_sub_days Let_def)
qed

theorem calculate_service_status_past_witness:
  "(63902908799999999::int) < 63902908800000000
   \<and> calculate_service_status 63902908800000000 63902908799999999 = (''OVERDUE'', -1)"
  using calculate_service_status_past [of 63902908799999999 63902908800000000]
  by (simp add: calculate_service_status_def datetime_sub_days US_PER_DAY_def Let_def)

section \<open>Properties of date arithmetic\<close>

lemma new_timedelta_total:
  "total_us (new_timedelta d s us) = d * US_PER_DAY + s * US_PER_SECOND + us"
proof -
  define s1 where "s1 = s + us div US_PER_SECOND"
  have a: "us = (us div US_PER_SECOND) * US_PER_SECOND + us mod US_PER_SECOND" by simp
  have b: "s1 = (s1 div SECONDS_PER_DAY) * SECONDS_PER_DAY + s1 mod SECONDS_PER_DAY" by simp
  have c: "US_PER_DAY = SECONDS_PER_DAY * US_PER_SECOND"
    unfolding US_PER_DAY_def SECONDS_PER_DAY_def US_PER_SECOND_def by simp
  have "total_us (new_timedelta d s us)
      = (d + s1 div SECONDS_PER_DAY) * US_PER_DAY + (s1 mod SECONDS_PER_DAY) * US_PER_SECOND
        + us mod US_PER_SECOND"
    unfolding total_us_def new_timedelta_def s1_def by (simp add: Let_def)
  also have "\<dots> = d * US_PER_DAY
        + ((s1 div SECONDS_PER_DAY) * SECONDS_PER_DAY + s1 mod SECONDS_PER_DAY) * US_PER_SECOND
        + us mod US_PER_SECOND"
    unfolding c by (simp only: algebra_simps)
  also have "\<dots> = d * US_PER_DAY + s1 * US_PER_SECOND + us mod US_PER_SECOND"
    using b by simp
  also have "\<dots> = d * US_PER_DAY + s * US_PER_SECOND
        + ((us div US_PER_SECOND) * US_PER_SECOND + us mod US_PER_SECOND)"
    unfolding s1_def by (simp only: algebra_simps)
  also have "\<dots> = d * US_PER_DAY + s * US_PER_SECOND + us"
    using a by simp
  finally show ?thesis .
qed

lemma valid_datetime_iff_div:
  "valid_datetime t \<longleftrightarrow> 0 \<le> t div US_PER_DAY \<and> t div US_PER_DAY < MAXORDINAL"
proof -
  have pos: "0 < US_PER_DAY" unfolding US_PER_DAY_def by simp
  show ?thesis
    unfolding valid_datetime_def MAXORDINAL_def US_PER_DAY_def by linarith
qed

lemma datetime_add_total:
  "datetime_add t td =
     (if valid_datetime (t + total_us td) then Inr (t + total_us td) else Inl OverflowError)"
proof -
  define delta where "delta = new_timedelta (toordinal t + days td)
                                (second_of_day t + seconds td)
                                (microsecond t + microseconds td)"
  have "total_us delta = (toordinal t + days td) * US_PER_DAY
          + (second_of_day t + seconds td) * US_PER_SECOND + (microsecond t + microseconds td)"
    unfolding delta_def by (rule new_timedelta_total)
  also have "\<dots> = ((toordinal t - 1) * US_PER_DAY + second_of_day t * US_PER_SECOND
          + microsecond t) + total_us td + US_PER_DAY"
    unfolding total_us_def by (simp add: algebra_simps)
  also have "\<dots> = t + total_us td + US_PER_DAY"
    using datetime_split [of t] by simp
  finally have tot: "total_us delta = t + total_us td + US_PER_DAY" .
  have "days delta = ((toordinal t + days td) * US_PER_DAY
          + (second_of_day t + seconds td) * US_PER_SECOND
          + (microsecond t + microseconds td)) div US_PER_DAY"
    unfolding delta_def by (rule new_timedelta_days)
  also have "\<dots> = (total_us delta) div US_PER_DAY"
    unfolding delta_def new_timedelta_total by simp
  also have "\<dots> = (t + total_us td + US_PER_DAY) div US_PER_DAY"
    using tot by simp
  also have "\<dots> = (t + total_us td) div US_PER_DAY + 1"
    unfolding US_PER_DAY_def by simp
  finally have d: "days delta = (t + total_us td) div US_PER_DAY + 1" .
  have v: "valid_datetime (t + total_us td) \<longleftrightarrow> 0 < days delta \<and> days delta \<le> MAXORDINAL"
    unfolding valid_datetime_iff_div d by auto
  have r: "(days delta - 1) * US_PER_DAY + seconds delta * US_PER_SECOND + microseconds delta
         = t + total_us td"
    using tot unfolding total_us_def by (simp add: algebra_simps)
  show ?thesis
    unfolding datetime_add_def delta_def [symmetric] Let_def v r by simp
qed

lemma datetime_add_days_eq:
  assumes "valid_datetime t"
  shows "datetime_add_days t n =
     (if valid_datetime (t + n * US_PER_DAY) then Inr (t + n * US_PER_DAY) else Inl OverflowError)"
proof (cases "\<bar>n\<bar> > MAX_DELTA_DAYS")
  case True
  then have "\<not> valid_datetime (t + n * US_PER_DAY)"
    using assms unfolding valid_datetime_def MAX_DELTA_DAYS_def MAXORDINAL_def US_PER_DAY_def
    by linarith
  with True show ?thesis
    unfolding datetime_add_days_def timedelta_of_days_def by simp
next
  case False
  have "total_us (new_timedelta n 0 0) = n * US_PER_DAY"
    by (simp add: new_timedelta_total)
  with False show ?thesis
    unfolding datetime_add_days_def timedelta_of_days_def
    by (simp add: datetime_add_total)
qed


lemma datetime_add_days_Inr:
  assumes "datetime_add_days t n = Inr t'"
  shows "t' = t + n * US_PER_DAY \<and> valid_datetime t'"
proof -
  have le: "\<not> \<bar>n\<bar> > MAX_DELTA_DAYS"
    using assms unfolding datetime_add_days_def timedelta_of_days_def
    by (auto split: if_splits)
  have "total_us (new_timedelta n 0 0) = n * US_PER_DAY"
    by (simp add: new_timedelta_total)
  with le assms show ?thesis
    unfolding datetime_add_days_def timedelta_of_days_def
    by (auto simp: datetime_add_total split: if_splits)
qed

lemma find_None_iff_all: "find P xs = None \<longleftrightarrow> (\<forall>x \<in> set xs. \<not> P x)"
  by (induction xs) auto

section \<open>Properties of the CRUD operations\<close>

lemma create_service_record_missing_type:
  assumes "get_service_type db (src_service_type_id req) = None"
  shows "create_service_record now db req =
     (db, Inl (ValueError (''Service type '' @ str_int (src_service_type_id req)
                           @ '' not found'')))"
  using assms unfolding create_service_record_def by simp

lemma create_service_record_no_ValueError:
  assumes "get_service_type db (src_service_type_id req) = Some st"
  shows "snd (create_service_record now db req) \<noteq> Inl (ValueError msg)"
proof -
  have ov: "e = OverflowError" if "datetime_add_days t n = Inl e" for t n e
    using that unfolding datetime_add_days_def timedelta_of_days_def datetime_add_def
    by (auto simp: Let_def split: if_splits)
  show ?thesis
    unfolding create_service_record_def using assms
    by (auto simp: Let_def split: sum.splits dest: ov)
qed

text \<open>
  The route handler rejects a request for a missing service type with a 404 and an
  unchanged database. Its message names the service type when the vehicle exists; a
  missing vehicle is reported first, by its own identifier.
\<close>

lemma routes_create_service_record_unknown_type:
  assumes "get_service_type db (src_service_type_id req) = None"
  shows "routes_create_service_record now db req =
     (db, Inl (HTTPException 404
        (if get_vehicle db (src_vehicle_id req) = None
         then ''Vehicle with ID '' @ str_int (src_vehicle_id req) @ '' not found''
         else ''Service type with ID '' @ str_int (src_service_type_id req) @ '' not found'')))"
  using assms unfolding routes_create_service_record_def
  by (simp split: option.splits)

lemma routes_create_service_record_known_type:
  assumes "get_service_type db (src_service_type_id req) = Some st"
  shows "snd (routes_create_service_record now db req) \<noteq>
           Inl (HTTPException code (CHR ''S'' # msg))"
proof (cases "get_vehicle db (src_vehicle_id req)")
  case None
  then show ?thesis
    unfolding routes_create_service_record_def by simp
next
  case (Some v)
  obtain db' res where c: "create_service_record now db req = (db', res)"
    by (cases "create_service_record now db req")
  have nv: "res \<noteq> Inl (ValueError e)" for e
    using create_service_record_no_ValueError [OF assms, of now e] c by simp
  have nh: "res \<noteq> Inl (HTTPException k e)" for k e
    using c unfolding create_service_record_def datetime_add_days_def timedelta_of_days_def
      datetime_add_def
    by (auto simp: Let_def assms split: sum.splits if_splits)
  show ?thesis
  proof (cases res)
    case (Inl x)
    with nv nh c Some assms show ?thesis
      unfolding routes_create_service_record_def by (cases x) auto
  next
    case (Inr x)
    with c Some assms show ?thesis
      unfolding routes_create_service_record_def by simp
  qed
qed

text \<open>
  C9, as the code has it. When no service type with the requested identifier is stored,
  the CRUD operation \<^verbatim>\<open>create_service_record\<close> raises the \<^verbatim>\<open>ValueError\<close> whose
  message names that identifier, and the route handler \<^verbatim>\<open>create_service_record\<close>
  answers 404; both leave the database as it was, no record added. The handler's message
  names the service type when the requested vehicle exists, and names the vehicle when
  that is missing as well. When such a service type is stored, the CRUD operation raises
  no \<^verbatim>\<open>ValueError\<close> and the handler answers with no error about a service type.
\<close>

theorem create_service_record_unknown_type:
  "((\<forall>t \<in> set (service_types db). st_id t \<noteq> src_service_type_id req) \<longrightarrow>
      create_service_record now db req =
        (db, Inl (ValueError (''Service type '' @ str_int (src_service_type_id req)
                              @ '' not found'')))
      \<and> routes_create_service_record now db req =
        (db, Inl (HTTPException 404
           (if get_vehicle db (src_vehicle_id req) = None
            then ''Vehicle with ID '' @ str_int (src_vehicle_id req) @ '' not found''
            else ''Service type with ID '' @ str_int (src_service_type_id req)
                 @ '' not found''))))
   \<and> ((\<exists>t \<in> set (service_types db). st_id t = src_service_type_id req) \<longrightarrow>
      (\<forall>msg. snd (create_service_record now db req) \<noteq> Inl (ValueError msg))
      \<and> (\<forall>code msg. snd (routes_create_service_record now db req) \<noteq>
             Inl (HTTPException code (''Service type'' @ msg))))"
proof (intro conjI impI)
  assume "\<forall>t \<in> set (service_types db). st_id t \<noteq> src_service_type_id req"
  then have none: "get_service_type db (src_service_type_id req) = None"
    unfolding get_service_type_def by (simp add: find_None_iff_all)
  show "create_service_record now db req =
        (db, Inl (ValueError (''Service type '' @ str_int (src_service_type_id req)
                              @ '' not found'')))"
    using none by (rule create_service_record_missing_type)
  show "routes_create_service_record now db req =
        (db, Inl (HTTPException 404
           (if get_vehicle db (src_vehicle_id req) = None
            then ''Vehicle with ID '' @ str_int (src_vehicle_id req) @ '' not found''
            else ''Service type with ID '' @ str_int (src_service_type_id req)
                 @ '' not found'')))"
    using none by (rule routes_create_service_record_unknown_type)
next
  assume "\<exists>t \<in> set (service_types db). st_id t = src_service_type_id req"
  then have "get_service_type db (src_service_type_id req) \<noteq> None"
    unfolding get_service_type_def by (auto simp: find_None_iff_all)
  then obtain st where st: "get_service_type db (src_service_type_id req) = Some st"
    by blast
  show "\<forall>msg. snd (create_service_record now db req) \<noteq> Inl (ValueError msg)"
    using create_service_record_no_ValueError [OF st] by blast
  show "\<forall>code msg. snd (routes_create_service_record now db req) \<noteq>
             Inl (HTTPException code (''Service type'' @ msg))"
    using routes_create_service_record_known_type [OF st] by simp
qed

theorem create_service_record_unknown_type_witness:
  "service_types example_db = [example_service_type]
   \<and> create_service_record example_now example_db example_unknown_request
       = (example_db, Inl (ValueError ''Service type 7 not found''))
   \<and> routes_create_service_record example_now example_db example_unknown_request
       = (example_db, Inl (HTTPException 404 ''Service type with ID 7 not found''))
   \<and> snd (create_service_record example_now example_db example_request)
       \<noteq> Inl (ValueError ''Service type 1 not found'')
   \<and> snd (routes_create_service_record example_now example_db example_request)
       \<noteq> Inl (HTTPException 404 ''Service type with ID 1 not found'')"
  using create_service_record_unknown_type [of example_db example_unknown_request example_now]
    create_service_record_unknown_type [of example_db example_request example_now]
  by (simp add: example_db_def example_service_type_def example_unknown_request_def
        example_request_def example_vehicle_def get_vehicle_def str_int_def digits.simps
        digit_char_def)

text \<open>
  The claim as first stated fails on the route handler: for a request that names neither
  a stored vehicle nor a stored service type, the rejection names the vehicle, not the
  service type.
\<close>

theorem routes_create_service_record_vehicle_first:
  "get_service_type example_db (src_service_type_id example_orphan_request) = None
   \<and> routes_create_service_record example_now example_db example_orphan_request
       = (example_db, Inl (HTTPException 404 ''Vehicle with ID 9 not found''))"
  by (simp add: routes_create_service_record_def get_vehicle_def get_service_type_def
        example_db_def example_vehicle_def example_service_type_def
        example_orphan_request_def str_int_def digits.simps digit_char_def)

lemma create_service_record_cases:
  assumes "create_service_record now db req = (db1, res)"
  shows "(db1 = db \<and> (\<exists>e. res = Inl e))
       \<or> (db1 = db\<lparr>service_records_id_seq := service_records_id_seq db + 1\<rparr>
            \<and> res = Inl IntegrityError)
       \<or> (\<exists>st next_service.
             get_service_type db (src_service_type_id req) = Some st
           \<and> datetime_add_days (src_service_date req) (interval_days st) = Inr next_service
           \<and> get_vehicle db (src_vehicle_id req) \<noteq> None
           \<and> res = Inr \<lparr>sr_id = service_records_id_seq db + 1,
                           vehicle_id = src_vehicle_id req,
                           service_type_id = src_service_type_id req,
                           service_date = src_service_date req,
                           next_service_date = next_service,
                           sr_notes = src_notes req,
                           sr_created_at = now\<rparr>
           \<and> db1 = db\<lparr>service_records := service_records db @
                         [\<lparr>sr_id = service_records_id_seq db + 1,
                           vehicle_id = src_vehicle_id req,
                           service_type_id = src_service_type_id req,
                           service_date = src_service_date req,
                           next_service_date = next_service,
                           sr_notes = src_notes req,
                           sr_created_at = now\<rparr>],
                       service_records_id_seq := service_records_id_seq db + 1\<rparr>)"
  using assms unfolding create_service_record_def
  by (auto simp: Let_def split: option.splits sum.splits if_splits)

lemma apply_operation_seq:
  "service_records_id_seq db \<le> service_records_id_seq (apply_operation db op)"
proof (cases op)
  case (CreateServiceRecord now req)
  obtain db1 res where c: "create_service_record now db req = (db1, res)"
    by (cases "create_service_record now db req")
  from create_service_record_cases [OF c] CreateServiceRecord c show ?thesis
    by auto
qed (auto simp: create_vehicle_def delete_vehicle_def create_service_type_def Let_def
       split: option.splits)

lemma apply_operation_records:
  assumes "r \<in> set (service_records (apply_operation db op))"
  shows "r \<in> set (service_records db) \<or> service_records_id_seq db < sr_id r"
proof (cases op)
  case (CreateServiceRecord now req)
  obtain db1 res where c: "create_service_record now db req = (db1, res)"
    by (cases "create_service_record now db req")
  from create_service_record_cases [OF c] CreateServiceRecord c assms show ?thesis
    by auto
qed (use assms in \<open>auto simp: create_vehicle_def delete_vehicle_def create_service_type_def
       Let_def split: option.splits if_splits\<close>)

lemma foldl_apply_operation_records:
  "r \<in> set (service_records (foldl apply_operation db ops)) \<Longrightarrow>
     r \<in> set (service_records db) \<or> service_records_id_seq db < sr_id r"
proof (induction ops arbitrary: db)
  case Nil
  then show ?case by simp
next
  case (Cons op ops)
  from Cons.prems have "r \<in> set (service_records (foldl apply_operation (apply_operation db op) ops))"
    by simp
  from Cons.IH [OF this] show ?case
    using apply_operation_records [of r db op] apply_operation_seq [of db op] by auto
qed

text \<open>
  C3. A record created by \<^verbatim>\<open>create_service_record\<close> is stored with the service date
  and the service type of the request, and with a next-due date that lies the interval
  of that service type, as stored at the time of creation, after its service date.
  Whatever writes follow, a change of that interval among them, the row with the
  record's key is the record as created, both dates included, as long as it is stored at
  all.
\<close>

theorem create_service_record_next_due:
  assumes "ids_in_sequence db"
    and "get_service_type db (src_service_type_id req) = Some st"
    and "create_service_record now db req = (db1, Inr rec)"
  shows "service_date rec = src_service_date req
       \<and> service_type_id rec = src_service_type_id req
       \<and> next_service_date rec = service_date rec + interval_days st * US_PER_DAY
       \<and> next_service_date rec = src_service_date req + interval_days st * US_PER_DAY
       \<and> rec \<in> set (service_records db1)
       \<and> (\<forall>r \<in> set (service_records (foldl apply_operation db1 ops)).
            sr_id r = sr_id rec \<longrightarrow>
              r = rec \<and> service_date r = src_service_date req
              \<and> next_service_date r = service_date r + interval_days st * US_PER_DAY)"
proof -
  from create_service_record_cases [OF assms(3)] assms(2)
  obtain next_service where
    add: "datetime_add_days (src_service_date req) (interval_days st) = Inr next_service"
    and rec: "rec = \<lparr>sr_id = service_records_id_seq db + 1,
                    vehicle_id = src_vehicle_id req,
                    service_type_id = src_service_type_id req,
                    service_date = src_service_date req,
                    next_service_date = next_service,
                    sr_notes = src_notes req,
                    sr_created_at = now\<rparr>"
    and db1: "db1 = db\<lparr>service_records := service_records db @ [rec],
                      service_records_id_seq := service_records_id_seq db + 1\<rparr>"
    by auto
  have due: "next_service_date rec = src_service_date req + interval_days st * US_PER_DAY"
    using datetime_add_days_Inr [OF add] rec by simp
  have stored: "rec \<in> set (service_records db1)"
    using db1 by simp
  have kept: "r = rec"
    if r: "r \<in> set (service_records (foldl apply_operation db1 ops))"
      and same: "sr_id r = sr_id rec" for r
  proof -
    have "sr_id rec = service_records_id_seq db1" using rec db1 by simp
    with foldl_apply_operation_records [OF r] same
    have "r \<in> set (service_records db1)" by simp
    then have "r = rec \<or> r \<in> set (service_records db)" using db1 by auto
    moreover have "sr_id r' < sr_id rec" if "r' \<in> set (service_records db)" for r'
      using that assms(1) rec unfolding ids_in_sequence_def list_all_iff by fastforce
    ultimately show ?thesis using same by fastforce
  qed
  have sd: "service_date rec = src_service_date req"
      "service_type_id rec = src_service_type_id req"
    using rec by simp_all
  have due': "next_service_date rec = service_date rec + interval_days st * US_PER_DAY"
    using due sd(1) by simp
  have kept': "r = rec \<and> service_date r = src_service_date req
             \<and> next_service_date r = service_date r + interval_days st * US_PER_DAY"
    if "r \<in> set (service_records (foldl apply_operation db1 ops))" "sr_id r = sr_id rec" for r
    using kept [OF that] sd(1) due' by simp
  from due due' sd stored kept' show ?thesis by blast
qed


lemma ids_in_sequence_apply_operation:
  assumes "ids_in_sequence db"
  shows "ids_in_sequence (apply_operation db op)"
proof -
  have "sr_id r \<le> service_records_id_seq (apply_operation db op)"
    if "r \<in> set (service_records (apply_operation db op))" for r
  proof -
    from apply_operation_records [OF that]
    show ?thesis
    proof
      assume "r \<in> set (service_records db)"
      then have "sr_id r \<le> service_records_id_seq db"
        using assms unfolding ids_in_sequence_def list_all_iff by blast
      then show ?thesis using apply_operation_seq [of db op] by linarith
    next
      assume new: "service_records_id_seq db < sr_id r"
      show ?thesis
      proof (cases op)
        case (CreateServiceRecord now req)
        obtain db1 res where c: "create_service_record now db req = (db1, res)"
          by (cases "create_service_record now db req")
        from create_service_record_cases [OF c] CreateServiceRecord c that new assms
        show ?thesis
          unfolding ids_in_sequence_def list_all_iff by fastforce
      qed (use that new assms in \<open>auto simp: create_vehicle_def delete_vehicle_def
             create_service_type_def Let_def ids_in_sequence_def list_all_iff
             split: option.splits if_splits\<close>)
    qed
  qed
  then show ?thesis unfolding ids_in_sequence_def list_all_iff by blast
qed

theorem create_service_record_next_due_witness:
  "ids_in_sequence example_db
   \<and> get_service_type example_db (src_service_type_id example_request)
       = Some example_service_type
   \<and> create_service_record example_now example_db example_request
       = (example_db\<lparr>service_records := [example_record], service_records_id_seq := 1\<rparr>,
          Inr example_record)
   \<and> service_date example_record = src_service_date example_request
   \<and> next_service_date example_record
       = service_date example_record + interval_days example_service_type * US_PER_DAY
   \<and> next_service_date example_record
       = src_service_date example_request + interval_days example_service_type * US_PER_DAY
   \<and> map interval_days (service_types (foldl apply_operation
             (example_db\<lparr>service_records := [example_record], service_records_id_seq := 1\<rparr>)
             [ChangeInterval 1 30, DeleteVehicle 2])) = [30]
   \<and> service_records (foldl apply_operation
             (example_db\<lparr>service_records := [example_record], service_records_id_seq := 1\<rparr>)
             [ChangeInterval 1 30, DeleteVehicle 2]) = [example_record]"
proof -
  have a: "ids_in_sequence example_db"
    by (simp add: ids_in_sequence_def example_db_def)
  have b: "get_service_type example_db (src_service_type_id example_request)
       = Some example_service_type"
    by (simp add: get_service_type_def example_db_def example_request_def
          example_service_type_def)
  have add: "datetime_add_days 63902822400000000 90 = Inr 63910598400000000"
    by (simp add: datetime_add_days_def timedelta_of_days_def MAX_DELTA_DAYS_def
          new_timedelta_def datetime_add_def toordinal_def second_of_day_def microsecond_def
          US_PER_DAY_def US_PER_SECOND_def SECONDS_PER_DAY_def MAXORDINAL_def Let_def)
  have c: "create_service_record example_now example_db example_request
       = (example_db\<lparr>service_records := [example_record], service_records_id_seq := 1\<rparr>,
          Inr example_record)"
    using b add
    by (simp add: create_service_record_def get_vehicle_def example_db_def
          example_request_def example_service_type_def example_vehicle_def
          example_record_def example_now_def Let_def)
  have d: "map interval_days (service_types (foldl apply_operation
             (example_db\<lparr>service_records := [example_record], service_records_id_seq := 1\<rparr>)
             [ChangeInterval 1 30, DeleteVehicle 2])) = [30]"
    by (simp add: delete_vehicle_def get_vehicle_def example_db_def example_vehicle_def
          example_service_type_def)
  have e: "service_records (foldl apply_operation
             (example_db\<lparr>service_records := [example_record], service_records_id_seq := 1\<rparr>)
             [ChangeInterval 1 30, DeleteVehicle 2]) = [example_record]"
    by (simp add: delete_vehicle_def get_vehicle_def example_db_def example_vehicle_def
          example_service_type_def)
  from create_service_record_next_due [OF a b c, of "[ChangeInterval 1 30, DeleteVehicle 2]"]
    a b c d e show ?thesis
    by simp
qed

text \<open>
  C10. With \<open>now\<close> a value of the type and \<open>now\<close> plus \<open>days_ahead\<close> days one as well,
  \<^verbatim>\<open>get_upcoming_services\<close> returns the stored records whose next-due date \<open>d\<close> has
  \<open>now \<le> d \<le> now + days_ahead\<close> days, each once, in ascending order of \<open>d\<close>. For every
  other \<open>days_ahead\<close> it raises \<^verbatim>\<open>OverflowError\<close>.
\<close>

theorem get_upcoming_services_window:
  assumes "valid_datetime now"
  shows "(valid_datetime (now + days_ahead * US_PER_DAY) \<longrightarrow>
          (\<exists>rs. get_upcoming_services now db days_ahead = Inr rs
              \<and> set rs = {r \<in> set (service_records db).
                    now \<le> next_service_date r
                    \<and> next_service_date r \<le> now + days_ahead * US_PER_DAY}
              \<and> mset rs = mset (filter (\<lambda>r. now \<le> next_service_date r
                    \<and> next_service_date r \<le> now + days_ahead * US_PER_DAY)
                    (service_records db))
              \<and> sorted (map next_service_date rs)))
       \<and> (\<not> valid_datetime (now + days_ahead * US_PER_DAY) \<longrightarrow>
          get_upcoming_services now db days_ahead = Inl OverflowError)"
  unfolding get_upcoming_services_def datetime_add_days_eq [OF assms]
  by auto

theorem get_upcoming_services_window_witness:
  "valid_datetime example_now
   \<and> valid_datetime (example_now + 90 * US_PER_DAY)
   \<and> get_upcoming_services example_now
        (example_db\<lparr>service_records := [example_record]\<rparr>) 90 = Inr [example_record]
   \<and> \<not> valid_datetime (example_now + 10000000 * US_PER_DAY)
   \<and> get_upcoming_services example_now
        (example_db\<lparr>service_records := [example_record]\<rparr>) 10000000 = Inl OverflowError"
proof -
  have v: "valid_datetime example_now"
    by (simp add: valid_datetime_def example_now_def MAXORDINAL_def US_PER_DAY_def)
  have a: "valid_datetime (example_now + 90 * US_PER_DAY)"
    by (simp add: valid_datetime_def example_now_def MAXORDINAL_def US_PER_DAY_def)
  have b: "\<not> valid_datetime (example_now + 10000000 * US_PER_DAY)"
    by (simp add: valid_datetime_def example_now_def MAXORDINAL_def US_PER_DAY_def)
  from get_upcoming_services_window [OF v, of 90 "example_db\<lparr>service_records := [example_record]\<rparr>"] a
  obtain rs where rs: "get_upcoming_services example_now
        (example_db\<lparr>service_records := [example_record]\<rparr>) 90 = Inr rs"
    and m: "mset rs = mset (filter (\<lambda>r. example_now \<le> next_service_date r
                    \<and> next_service_date r \<le> example_now + 90 * US_PER_DAY)
                    (service_records (example_db\<lparr>service_records := [example_record]\<rparr>)))"
    by blast
  from m have "rs = [example_record]"
    by (simp add: example_record_def example_now_def US_PER_DAY_def)
  with rs v a b
    get_upcoming_services_window [OF v, of 10000000 "example_db\<lparr>service_records := [example_record]\<rparr>"]
  show ?thesis by simp
qed

text \<open>
  The record of the example is due within the window of ten million days, yet the call
  raises: the end of the window lies beyond the year 9999.
\<close>

theorem get_upcoming_services_overflow:
  "example_record \<in> set (service_records (example_db\<lparr>service_records := [example_record]\<rparr>))
   \<and> example_now \<le> next_service_date example_record
   \<and> next_service_date example_record \<le> example_now + 10000000 * US_PER_DAY
   \<and> get_upcoming_services example_now
        (example_db\<lparr>service_records := [example_record]\<rparr>) 10000000 = Inl OverflowError"
  by (simp add: get_upcoming_services_def datetime_add_days_def timedelta_of_days_def
        MAX_DELTA_DAYS_def new_timedelta_def datetime_add_def toordinal_def second_of_day_def
        microsecond_def US_PER_DAY_def US_PER_SECOND_def SECONDS_PER_DAY_def MAXORDINAL_def
        Let_def example_now_def example_record_def)

section \<open>Properties of the detail views\<close>

lemma build_service_detail_response_resolved:
  assumes "rel_vehicle db r = Some v" and "rel_service_type db r = Some t"
  shows "build_service_detail_response now r db =
     Inr \<lparr>d_id = sr_id r,
          d_vehicle_id = vehicle_id r,
          d_vehicle_number = vehicle_number v,
          d_owner_name = owner_name v,
          d_model = model v,
          d_service_type_id = service_type_id r,
          d_service_type_name = name t,
          d_service_date = service_date r,
          d_next_service_date = next_service_date r,
          d_notes = sr_notes r,
          d_status = fst (calculate_service_status now (next_service_date r)),
          d_days_until_due = snd (calculate_service_status now (next_service_date r))\<rparr>"
  using assms unfolding build_service_detail_response_def
  by (simp split: prod.splits)

lemma find_map_interval:
  "find (\<lambda>t. st_id t = i)
        (map (\<lambda>t. if st_id t = tid then t\<lparr>interval_days := n\<rparr> else t) ts)
   = map_option (\<lambda>t. if st_id t = tid then t\<lparr>interval_days := n\<rparr> else t)
        (find (\<lambda>t. st_id t = i) ts)"
  by (induction ts) auto

text \<open>
  C7. The detail view of a service record whose vehicle and service type resolve carries
  the record's stored next-due date as it is. The interval of the service type is not
  read: after a change of an interval the view of the record shows the same date.
\<close>

theorem build_service_detail_response_next_service_date:
  assumes "rel_vehicle db r = Some v" and "rel_service_type db r = Some t"
  shows "(\<exists>d. build_service_detail_response now r db = Inr d
            \<and> d_next_service_date d = next_service_date r)
       \<and> (\<exists>d'. build_service_detail_response now' r (apply_operation db (ChangeInterval tid n))
                 = Inr d'
            \<and> d_next_service_date d' = next_service_date r)"
proof -
  have v': "rel_vehicle (apply_operation db (ChangeInterval tid n)) r = Some v"
    using assms(1) unfolding rel_vehicle_def get_vehicle_def by simp
  have t': "rel_service_type (apply_operation db (ChangeInterval tid n)) r
          = Some (if st_id t = tid then t\<lparr>interval_days := n\<rparr> else t)"
    using assms(2) unfolding rel_service_type_def get_service_type_def
    by (simp add: find_map_interval)
  show ?thesis
    unfolding build_service_detail_response_resolved [OF assms]
      build_service_detail_response_resolved [OF v' t']
    by simp
qed

theorem build_service_detail_response_next_service_date_witness:
  "rel_vehicle (example_db\<lparr>service_records := [example_record]\<rparr>) example_record
     = Some example_vehicle
   \<and> rel_service_type (example_db\<lparr>service_records := [example_record]\<rparr>) example_record
     = Some example_service_type
   \<and> map_sum id d_next_service_date
       (build_service_detail_response example_now example_record
          (example_db\<lparr>service_records := [example_record]\<rparr>)) = Inr 63910598400000000
   \<and> map_sum id d_next_service_date
       (build_service_detail_response example_now example_record
          (apply_operation (example_db\<lparr>service_records := [example_record]\<rparr>)
             (ChangeInterval 1 30))) = Inr 63910598400000000"
proof -
  have a: "rel_vehicle (example_db\<lparr>service_records := [example_record]\<rparr>) example_record
     = Some example_vehicle"
    by (simp add: rel_vehicle_def get_vehicle_def example_db_def example_record_def
          example_vehicle_def)
  have b: "rel_service_type (example_db\<lparr>service_records := [example_record]\<rparr>) example_record
     = Some example_service_type"
    by (simp add: rel_service_type_def get_service_type_def example_db_def example_record_def
          example_service_type_def)
  have c: "next_service_date example_record = 63910598400000000"
    by (simp add: example_record_def)
  from build_service_detail_response_next_service_date [OF a b, of example_now example_now 1 30]
  show ?thesis using a b c by auto
qed

section \<open>Properties of the history\<close>

lemma detailed_records_resolved:
  assumes "\<forall>r \<in> set records. rel_vehicle db r \<noteq> None \<and> rel_service_type db r \<noteq> None"
  shows "\<exists>ds. detailed_records clock k records db = Inr ds
            \<and> length ds = length records
            \<and> (\<forall>i < length records.
                  build_service_detail_response (clock (k + i)) (records ! i) db = Inr (ds ! i))"
  using assms
proof (induction records arbitrary: k)
  case Nil
  then show ?case by simp
next
  case (Cons r records)
  from Cons.prems obtain v t where "rel_vehicle db r = Some v" "rel_service_type db r = Some t"
    by auto
  then obtain d where d: "build_service_detail_response (clock k) r db = Inr d"
    using build_service_detail_response_resolved by blast
  from Cons.IH [of "Suc k"] Cons.prems
  obtain ds where ds: "detailed_records clock (Suc k) records db = Inr ds"
      "length ds = length records"
      "\<forall>i < length records.
          build_service_detail_response (clock (Suc k + i)) (records ! i) db = Inr (ds ! i)"
    by auto
  have "build_service_detail_response (clock (k + i)) ((r # records) ! i) db = Inr ((d # ds) ! i)"
    if "i < length (r # records)" for i
    using that d ds(3) by (cases i) auto
  with d ds(1,2) show ?case by simp
qed

text \<open>
  C8. For a vehicle and a sequence of service records that resolve, the history carries
  the vehicle's public fields and one detail view per record, the view at each position
  being that of the record at the same position. For no records the list of views is
  empty and the vehicle's fields are there all the same.
\<close>

theorem build_service_history_order:
  assumes "\<forall>r \<in> set records. rel_vehicle db r \<noteq> None \<and> rel_service_type db r \<noteq> None"
  shows "(\<exists>ds. build_service_history clock vehicle records db =
               Inr \<lparr>h_vehicle = \<lparr>vr_id = v_id vehicle,
                                 vr_vehicle_number = vehicle_number vehicle,
                                 vr_owner_name = owner_name vehicle,
                                 vr_model = model vehicle,
                                 vr_created_at = v_created_at vehicle\<rparr>,
                    h_service_records = ds\<rparr>
            \<and> length ds = length records
            \<and> (\<forall>i < length records.
                  build_service_detail_response (clock i) (records ! i) db = Inr (ds ! i)))
       \<and> build_service_history clock vehicle [] db =
               Inr \<lparr>h_vehicle = \<lparr>vr_id = v_id vehicle,
                                 vr_vehicle_number = vehicle_number vehicle,
                                 vr_owner_name = owner_name vehicle,
                                 vr_model = model vehicle,
                                 vr_created_at = v_created_at vehicle\<rparr>,
                    h_service_records = []\<rparr>"
proof -
  from detailed_records_resolved [OF assms, of clock 0]
  obtain ds where "detailed_records clock 0 records db = Inr ds"
      "length ds = length records"
      "\<forall>i < length records.
          build_service_detail_response (clock i) (records ! i) db = Inr (ds ! i)"
    by auto
  then show ?thesis
    unfolding build_service_history_def from_orm_def by simp
qed

theorem build_service_history_order_witness:
  "list_all (\<lambda>r. rel_vehicle example_store r \<noteq> None \<and> rel_service_type example_store r \<noteq> None)
     [example_record, example_second_record]
   \<and> map_sum id (\<lambda>h. (vr_vehicle_number (h_vehicle h),
                        map (\<lambda>d. (d_id d, d_status d, d_days_until_due d))
                            (h_service_records h)))
       (build_service_history (\<lambda>k. example_now) example_vehicle
          [example_record, example_second_record] example_store)
     = Inr (''KA01AB1234'', [(1, ''UPCOMING'', 90), (2, ''OVERDUE'', -1)])
   \<and> map_sum id h_service_records
       (build_service_history (\<lambda>k. example_now) example_vehicle [] example_store) = Inr []"
proof -
  have a: "\<forall>r \<in> set [example_record, example_second_record].
             rel_vehicle example_store r \<noteq> None \<and> rel_service_type example_store r \<noteq> None"
    by (simp add: rel_vehicle_def rel_service_type_def get_vehicle_def get_service_type_def
          example_store_def example_db_def example_record_def example_second_record_def
          example_vehicle_def example_service_type_def)
  have s1: "calculate_service_status example_now (next_service_date example_record)
            = (''UPCOMING'', 90)"
    by (simp add: calculate_service_status_def datetime_sub_days example_now_def
          example_record_def US_PER_DAY_def)
  have s2: "calculate_service_status example_now (next_service_date example_second_record)
            = (''OVERDUE'', -1)"
    by (simp add: calculate_service_status_def datetime_sub_days example_now_def
          example_second_record_def US_PER_DAY_def)
  have b: "map_sum id (\<lambda>h. (vr_vehicle_number (h_vehicle h),
                        map (\<lambda>d. (d_id d, d_status d, d_days_until_due d))
                            (h_service_records h)))
       (build_service_history (\<lambda>k. example_now) example_vehicle
          [example_record, example_second_record] example_store)
     = Inr (''KA01AB1234'', [(1, ''UPCOMING'', 90), (2, ''OVERDUE'', -1)])"
    using s1 s2
    by (simp add: build_service_history_def build_service_detail_response_def from_orm_def
          rel_vehicle_def rel_service_type_def get_vehicle_def get_service_type_def
          example_store_def example_db_def example_record_def example_second_record_def
          example_vehicle_def example_service_type_def)
  from build_service_history_order [OF a, of "\<lambda>k. example_now" example_vehicle] a b
  show ?thesis by (auto simp: list_all_iff)
qed


section \<open>Properties of the CSV reader\<close>

lemma process_chars_append:
  "process_chars r (xs @ ys) =
     (case process_chars r xs of Inl e \<Rightarrow> Inl e | Inr r' \<Rightarrow> process_chars r' ys)"
  by (induction xs arbitrary: r) (auto split: sum.splits)

lemma read_rows_parse_reset_Nil: "read_rows parse_reset [] = Inr []"
  by (simp add: parse_reset_def)

lemma feed_parse_reset_Nil: "feed parse_reset [] = Inr []"
  by (simp add: parse_reset_def feed.simps)

lemma read_rows_single:
  "read_rows r [line] =
     (case process_chars r (map Some line @ [None]) of
        Inl e \<Rightarrow> Inl e
      | Inr r' \<Rightarrow>
          if rd_state r' = START_RECORD then Inr [rd_fields r'] else feed r' [])"
  by (simp add: parse_reset_def feed.simps split: sum.splits)

lemma read_rows_Cons_split:
  assumes "\<And>r. read_rows r lines = feed r rest"
  shows "read_rows r ((line @ ending) # lines) =
     (case process_chars r (map Some line) of
        Inl e \<Rightarrow> Inl e
      | Inr r' \<Rightarrow>
          (case process_chars r' (map Some ending @ [None]) of
             Inl e \<Rightarrow> Inl e
           | Inr r2 \<Rightarrow>
               if rd_state r2 = START_RECORD
               then (case feed parse_reset rest of
                       Inl e \<Rightarrow> Inl e
                     | Inr rows \<Rightarrow> Inr (rd_fields r2 # rows))
               else feed r2 rest))"
proof (cases "process_chars r (map Some line)")
  case (Inl e)
  then show ?thesis by (simp add: process_chars_append)
next
  case (Inr r')
  then show ?thesis
    by (simp add: process_chars_append assms split: sum.splits)
qed

lemma feed_line_end:
  assumes "line_end c cs"
  shows "feed r (c # cs) =
     (case process_chars r [Some c, None] of
        Inl e \<Rightarrow> Inl e
      | Inr r2 \<Rightarrow>
          if rd_state r2 = START_RECORD
          then (case feed parse_reset cs of
                  Inl e \<Rightarrow> Inl e
                | Inr rows \<Rightarrow> Inr (rd_fields r2 # rows))
          else feed r2 cs)"
  using assms by (simp add: feed.simps split: sum.splits)

lemma feed_no_line_end:
  assumes "\<not> line_end c cs"
  shows "feed r (c # cs) =
     (case parse_process_char r (Some c) of
        Inl e \<Rightarrow> Inl e
      | Inr r1 \<Rightarrow> feed r1 cs)"
  using assms by (simp add: feed.simps split: sum.splits)

lemma process_chars_Cons:
  "process_chars r (Some c # cs) =
     (case parse_process_char r (Some c) of
        Inl e \<Rightarrow> Inl e
      | Inr r1 \<Rightarrow> process_chars r1 cs)"
  by simp

lemma read_rows_split_lines:
  "line = [] \<or> str \<noteq> [] \<Longrightarrow>
   read_rows r (split_lines line str) =
     (case process_chars r (map Some line) of
        Inl e \<Rightarrow> Inl e
      | Inr r' \<Rightarrow> feed r' str)"
proof (induction line str arbitrary: r rule: split_lines.induct)
  case (1 line)
  then show ?case by (simp add: feed.simps)
next
  case (2 line c cs)
  consider (lf) "c = LF"
    | (cr_end) "c \<noteq> LF" "c = CR" "cs = []"
    | (cr_lf) d ds where "c \<noteq> LF" "c = CR" "cs = d # ds" "d = LF"
    | (cr) d ds where "c \<noteq> LF" "c = CR" "cs = d # ds" "d \<noteq> LF"
    | (last) "c \<noteq> LF" "c \<noteq> CR" "cs = []"
    | (more) "c \<noteq> LF" "c \<noteq> CR" "cs \<noteq> []"
    by (cases cs) auto
  then show ?case
  proof cases
    case lf
    have ih: "read_rows r (split_lines [] cs) = feed r cs" for r
      using "2.IH"(1) [OF lf] by simp
    have sp: "split_lines line (c # cs) = (line @ [c]) # split_lines [] cs"
      using lf by simp
    have le: "line_end c cs" using lf by (simp add: line_end_def)
    show ?thesis
      unfolding sp read_rows_Cons_split [of "split_lines [] cs" cs, OF ih] feed_line_end [OF le]
      by (simp cong: sum.case_cong)
  next
    case cr_end
    have ih: "read_rows r [] = feed r []" for r
      by (simp add: feed.simps)
    have sp: "split_lines line [c] = (line @ [c]) # []"
      using cr_end by simp
    have le: "line_end c []" by (simp add: line_end_def)
    show ?thesis
      unfolding cr_end(3) sp read_rows_Cons_split [of "[]" "[]", OF ih] feed_line_end [OF le]
      by (simp cong: sum.case_cong)
  next
    case cr_lf
    have ih: "read_rows r (split_lines [] ds) = feed r ds" for r
      using "2.IH"(2) [OF cr_lf(1,2,3,4)] by simp
    have sp: "split_lines line (c # cs) = (line @ [c, d]) # split_lines [] ds"
      using cr_lf by simp
    have le: "\<not> line_end c cs" "line_end d ds"
      using cr_lf by (simp_all add: line_end_def)
    show ?thesis
      unfolding sp read_rows_Cons_split [of "split_lines [] ds" ds, OF ih]
        feed_no_line_end [OF le(1)]
      using cr_lf(3) feed_line_end [OF le(2)]
      by (simp cong: sum.case_cong split: sum.splits)
  next
    case cr
    have ih: "read_rows r (split_lines [] cs) = feed r cs" for r
      using "2.IH"(3) [OF cr(1,2,3,4)] cr(3) by simp
    have sp: "split_lines line (c # cs) = (line @ [c]) # split_lines [] cs"
      using cr by simp
    have le: "line_end c cs" using cr by (simp add: line_end_def)
    show ?thesis
      unfolding sp read_rows_Cons_split [of "split_lines [] cs" cs, OF ih] feed_line_end [OF le]
      by (simp cong: sum.case_cong)
  next
    case last
    have ih: "read_rows r [] = feed r []" for r
      by (simp add: feed.simps)
    have sp: "split_lines line [c] = (line @ [c]) # []"
      using last by simp
    have le: "line_end c []" by (simp add: line_end_def)
    show ?thesis
      unfolding last(3) sp read_rows_Cons_split [of "[]" "[]", OF ih] feed_line_end [OF le]
      by (simp cong: sum.case_cong)
  next
    case more
    have ih: "read_rows r (split_lines (line @ [c]) cs) =
       (case process_chars r (map Some (line @ [c])) of
          Inl e \<Rightarrow> Inl e
        | Inr r' \<Rightarrow> feed r' cs)"
      using "2.IH"(4) [OF more(1,2)] more(3) by simp
    have sp: "split_lines line (c # cs) = split_lines (line @ [c]) cs"
      using more by simp
    have le: "\<not> line_end c cs" using more by (simp add: line_end_def)
    show ?thesis
      unfolding sp ih feed_no_line_end [OF le]
      by (simp add: process_chars_append cong: sum.case_cong split: sum.splits)
  qed
qed

lemma csv_reader_feed: "csv_reader str = feed parse_reset str"
  unfolding csv_reader_def by (simp add: read_rows_split_lines)


lemma chars_distinct:
  "QUOTECHAR \<noteq> DELIMITER" "QUOTECHAR \<noteq> CR" "QUOTECHAR \<noteq> LF"
  "DELIMITER \<noteq> CR" "DELIMITER \<noteq> LF" "CR \<noteq> LF"
  "DELIMITER \<noteq> QUOTECHAR" "CR \<noteq> QUOTECHAR" "LF \<noteq> QUOTECHAR"
  "CR \<noteq> DELIMITER" "LF \<noteq> DELIMITER" "LF \<noteq> CR"
  by (simp_all add: QUOTECHAR_def DELIMITER_def CR_def LF_def)

lemma rd_state_update_same: "rd_state r = s \<Longrightarrow> r\<lparr>rd_state := s\<rparr> = r"
  by simp

lemma join_append_data_quoted:
  "snd (join_append_data f) \<longleftrightarrow> (\<exists>c \<in> set f. \<not> plain c)"
  by (induction f) (auto simp: plain_def LINETERMINATOR_def split: prod.splits)

lemma join_append_data_plain:
  "\<forall>c \<in> set f. plain c \<Longrightarrow> fst (join_append_data f) = f"
  by (induction f) (auto simp: plain_def LINETERMINATOR_def split: prod.splits)

lemma join_append_cases:
  "join_append f =
     (if \<forall>c \<in> set f. plain c then f
      else QUOTECHAR # fst (join_append_data f) @ [QUOTECHAR])"
  using join_append_data_quoted [of f] join_append_data_plain [of f]
  by (auto simp: join_append_def split: prod.splits)

lemma join_append_plain: "\<forall>c \<in> set f. plain c \<Longrightarrow> join_append f = f"
  by (simp add: join_append_cases)

lemma join_append_quoted:
  "\<not> (\<forall>c \<in> set f. plain c) \<Longrightarrow>
     join_append f = QUOTECHAR # fst (join_append_data f) @ [QUOTECHAR]"
  by (auto simp: join_append_cases)

lemma feed_plain:
  assumes "rd_state r = IN_FIELD" and "\<forall>c \<in> set f. plain c" and "rest \<noteq> []"
  shows "feed r (f @ rest) = feed (r\<lparr>rd_field := rd_field r @ f\<rparr>) rest"
  using assms
proof (induction f arbitrary: r)
  case Nil
  then show ?case by simp
next
  case (Cons c f)
  have p: "plain c" using Cons.prems(2) by simp
  have le: "\<not> line_end c (f @ rest)"
    using p Cons.prems(3) by (simp add: line_end_def plain_def)
  have step: "parse_process_char r (Some c) = Inr (parse_add_char r c)"
    using p Cons.prems(1) by (simp add: parse_process_char_def plain_def)
  have "feed r ((c # f) @ rest) = feed (parse_add_char r c) (f @ rest)"
    using feed_no_line_end [OF le, of r] step by simp
  also have "\<dots> = feed ((parse_add_char r c)\<lparr>rd_field := rd_field (parse_add_char r c) @ f\<rparr>) rest"
    using Cons.prems by (intro Cons.IH) (simp_all add: parse_add_char_def)
  finally show ?case by (simp add: parse_add_char_def)
qed

lemma feed_quoted_data:
  assumes "rd_state r = IN_QUOTED_FIELD" and "rest \<noteq> []"
  shows "feed r (fst (join_append_data f) @ rest) = feed (r\<lparr>rd_field := rd_field r @ f\<rparr>) rest"
  using assms
proof (induction f arbitrary: r)
  case Nil
  then show ?case by simp
next
  case (Cons c f)
  let ?data = "fst (join_append_data f)"
  have ih: "feed r' (?data @ rest) = feed (r'\<lparr>rd_field := rd_field r' @ f\<rparr>) rest"
    if "rd_state r' = IN_QUOTED_FIELD" for r'
    using that Cons.prems(2) by (rule Cons.IH)
  show ?case
  proof (cases "c = QUOTECHAR")
    case c: True
    have d: "fst (join_append_data (QUOTECHAR # f)) = QUOTECHAR # QUOTECHAR # ?data"
      by (simp split: prod.splits)
    have le1: "\<not> line_end QUOTECHAR (QUOTECHAR # ?data @ rest)"
      by (simp add: line_end_def chars_distinct)
    have le2: "\<not> line_end QUOTECHAR (?data @ rest)"
      using Cons.prems(2) by (simp add: line_end_def chars_distinct)
    have s1: "parse_process_char r (Some QUOTECHAR) = Inr (r\<lparr>rd_state := QUOTE_IN_QUOTED_FIELD\<rparr>)"
      using Cons.prems(1) by (simp add: parse_process_char_def)
    have s2: "parse_process_char (r\<lparr>rd_state := QUOTE_IN_QUOTED_FIELD\<rparr>) (Some QUOTECHAR)
            = Inr (r\<lparr>rd_field := rd_field r @ [QUOTECHAR]\<rparr>)"
      using Cons.prems(1) by (cases r) (simp add: parse_process_char_def parse_add_char_def)
    have "feed r (fst (join_append_data (QUOTECHAR # f)) @ rest)
        = feed (r\<lparr>rd_state := QUOTE_IN_QUOTED_FIELD\<rparr>) (QUOTECHAR # ?data @ rest)"
      unfolding d by (simp add: feed_no_line_end [OF le1] s1)
    also have "\<dots> = feed (r\<lparr>rd_field := rd_field r @ [QUOTECHAR]\<rparr>) (?data @ rest)"
      by (simp add: feed_no_line_end [OF le2] s2)
    also have "\<dots> = feed (r\<lparr>rd_field := rd_field r @ [QUOTECHAR]\<rparr>
                          \<lparr>rd_field := rd_field (r\<lparr>rd_field := rd_field r @ [QUOTECHAR]\<rparr>) @ f\<rparr>) rest"
      using Cons.prems(1) by (intro ih) simp
    also have "\<dots> = feed (r\<lparr>rd_field := rd_field r @ QUOTECHAR # f\<rparr>) rest"
      by simp
    finally show ?thesis unfolding c .
  next
    case False
    have d: "fst (join_append_data (c # f)) = c # ?data"
      using False by (simp split: prod.splits)
    have s: "parse_process_char r (Some c) = Inr (parse_add_char r c)"
      using False Cons.prems(1) by (simp add: parse_process_char_def)
    have st: "rd_state (parse_add_char r c) = IN_QUOTED_FIELD"
      using Cons.prems(1) by (simp add: parse_add_char_def)
    have eol: "parse_process_char (parse_add_char r c) None = Inr (parse_add_char r c)"
      using st by (simp add: parse_process_char_def)
    have "feed r (c # ?data @ rest) = feed (parse_add_char r c) (?data @ rest)"
    proof (cases "line_end c (?data @ rest)")
      case True
      show ?thesis
        by (simp add: feed_line_end [OF True] s eol st)
    next
      case False
      show ?thesis
        by (simp add: feed_no_line_end [OF False] s)
    qed
    also have "\<dots> = feed ((parse_add_char r c)\<lparr>rd_field := rd_field (parse_add_char r c) @ f\<rparr>) rest"
      using st by (rule ih)
    finally show ?thesis unfolding d by (simp add: parse_add_char_def)
  qed
qed


lemma feed_delimiter:
  assumes "field_done r" and "rest \<noteq> []"
  shows "feed r (DELIMITER # rest) = feed ((parse_save_field r)\<lparr>rd_state := START_FIELD\<rparr>) rest"
proof -
  have le: "\<not> line_end DELIMITER rest"
    using assms(2) by (simp add: line_end_def chars_distinct)
  have "parse_process_char r (Some DELIMITER) = Inr ((parse_save_field r)\<lparr>rd_state := START_FIELD\<rparr>)"
    using assms(1) unfolding field_done_def
    by (cases r) (auto simp: parse_process_char_def start_field_def parse_save_field_def
          chars_distinct)
  then show ?thesis by (simp add: feed_no_line_end [OF le])
qed

lemma feed_crlf:
  assumes "field_done r"
  shows "feed r (CR # LF # rest) =
     (case feed parse_reset rest of
        Inl e \<Rightarrow> Inl e
      | Inr rows \<Rightarrow> Inr ((rd_fields r @ [rd_field r]) # rows))"
proof -
  let ?r1 = "(parse_save_field r)\<lparr>rd_state := EAT_CRNL\<rparr>"
  have le1: "\<not> line_end CR (LF # rest)" by (simp add: line_end_def chars_distinct)
  have le2: "line_end LF rest" by (simp add: line_end_def)
  have s1: "parse_process_char r (Some CR) = Inr ?r1"
    using assms unfolding field_done_def
    by (auto simp: parse_process_char_def start_field_def chars_distinct)
  have s2: "process_chars ?r1 [Some LF, None] = Inr (?r1\<lparr>rd_state := START_RECORD\<rparr>)"
    by (simp add: parse_process_char_def)
  have "feed r (CR # LF # rest) = feed ?r1 (LF # rest)"
    by (simp add: feed_no_line_end [OF le1] s1)
  also have "\<dots> = (case feed parse_reset rest of
        Inl e \<Rightarrow> Inl e
      | Inr rows \<Rightarrow> Inr ((rd_fields r @ [rd_field r]) # rows))"
    unfolding feed_line_end [OF le2] s2 by (simp add: parse_save_field_def cong: sum.case_cong)
  finally show ?thesis .
qed

lemma feed_field:
  assumes "rd_state r = START_FIELD" and "rd_field r = []" and "rest \<noteq> []"
  shows "\<exists>r'. feed r (join_append f @ rest) = feed r' rest
            \<and> field_done r' \<and> rd_field r' = f \<and> rd_fields r' = rd_fields r"
proof (cases "\<forall>c \<in> set f. plain c")
  case True
  show ?thesis
  proof (cases f)
    case Nil
    then show ?thesis
      using assms by (auto simp: join_append_plain field_done_def)
  next
    case (Cons c f')
    have p: "plain c" "\<forall>c \<in> set f'. plain c" using True Cons by simp_all
    let ?r1 = "(parse_add_char r c)\<lparr>rd_state := IN_FIELD\<rparr>"
    have le: "\<not> line_end c (f' @ rest)"
      using p(1) assms(3) by (simp add: line_end_def plain_def)
    have s: "parse_process_char r (Some c) = Inr ?r1"
      using p(1) assms(1) by (simp add: parse_process_char_def start_field_def plain_def)
    have "feed r (join_append f @ rest) = feed r (f @ rest)"
      by (simp only: join_append_plain [OF True])
    also have "\<dots> = feed r ((c # f') @ rest)"
      by (simp only: Cons)
    also have "\<dots> = feed ?r1 (f' @ rest)"
      by (simp add: feed_no_line_end [OF le] s)
    also have "\<dots> = feed (?r1\<lparr>rd_field := rd_field ?r1 @ f'\<rparr>) rest"
      using p(2) assms(3) by (intro feed_plain) simp_all
    finally show ?thesis
      using assms(2) Cons
      by (intro exI [of _ "?r1\<lparr>rd_field := rd_field ?r1 @ f'\<rparr>"])
         (simp add: field_done_def parse_add_char_def)
  qed
next
  case False
  let ?data = "fst (join_append_data f)"
  let ?r1 = "r\<lparr>rd_state := IN_QUOTED_FIELD\<rparr>"
  let ?r2 = "?r1\<lparr>rd_field := rd_field ?r1 @ f\<rparr>"
  let ?r3 = "?r2\<lparr>rd_state := QUOTE_IN_QUOTED_FIELD\<rparr>"
  have le1: "\<not> line_end QUOTECHAR (?data @ QUOTECHAR # rest)"
    by (simp add: line_end_def chars_distinct)
  have le2: "\<not> line_end QUOTECHAR rest"
    using assms(3) by (simp add: line_end_def chars_distinct)
  have s1: "parse_process_char r (Some QUOTECHAR) = Inr ?r1"
    using assms(1) by (simp add: parse_process_char_def start_field_def chars_distinct)
  have "feed r (join_append f @ rest) = feed r (QUOTECHAR # ?data @ QUOTECHAR # rest)"
    by (simp add: join_append_quoted [OF False])
  also have "\<dots> = feed ?r1 (?data @ QUOTECHAR # rest)"
    by (simp add: feed_no_line_end [OF le1] s1)
  also have "\<dots> = feed ?r2 (QUOTECHAR # rest)"
    by (intro feed_quoted_data) simp_all
  also have "\<dots> = feed ?r3 rest"
    by (simp add: feed_no_line_end [OF le2] parse_process_char_def)
  finally show ?thesis
    using assms(2)
    by (intro exI [of _ ?r3]) (simp add: field_done_def)
qed

lemma feed_record:
  assumes "rd_state r = START_FIELD" and "rd_field r = []" and "fs \<noteq> []"
  shows "feed r (join_record fs @ CR # LF # rest) =
     (case feed parse_reset rest of
        Inl e \<Rightarrow> Inl e
      | Inr rows \<Rightarrow> Inr ((rd_fields r @ fs) # rows))"
  using assms
proof (induction fs arbitrary: r rule: join_record.induct)
  case 1
  then show ?case by simp
next
  case (2 f)
  from feed_field [OF "2.prems"(1,2), of "CR # LF # rest" f]
  obtain r' where r': "feed r (join_append f @ CR # LF # rest) = feed r' (CR # LF # rest)"
      "field_done r'" "rd_field r' = f" "rd_fields r' = rd_fields r"
    by auto
  show ?case
    using r' feed_crlf [OF r'(2), of rest] by (simp cong: sum.case_cong)
next
  case (3 f g fs)
  from feed_field [OF "3.prems"(1,2), of "DELIMITER # join_record (g # fs) @ CR # LF # rest" f]
  obtain r' where r': "feed r (join_append f @ DELIMITER # join_record (g # fs) @ CR # LF # rest)
        = feed r' (DELIMITER # join_record (g # fs) @ CR # LF # rest)"
      "field_done r'" "rd_field r' = f" "rd_fields r' = rd_fields r"
    by auto
  let ?r2 = "(parse_save_field r')\<lparr>rd_state := START_FIELD\<rparr>"
  have "feed r (join_record (f # g # fs) @ CR # LF # rest)
      = feed r' (DELIMITER # join_record (g # fs) @ CR # LF # rest)"
    using r'(1) by simp
  also have "\<dots> = feed ?r2 (join_record (g # fs) @ CR # LF # rest)"
    using r'(2) by (intro feed_delimiter) simp_all
  also have "\<dots> = (case feed parse_reset rest of
        Inl e \<Rightarrow> Inl e
      | Inr rows \<Rightarrow> Inr ((rd_fields ?r2 @ g # fs) # rows))"
    by (intro "3.IH") (simp_all add: parse_save_field_def)
  finally show ?case
    using r'(3,4) by (simp add: parse_save_field_def cong: sum.case_cong)
qed


lemma feed_start_record:
  assumes "rd_state r = START_RECORD" and "c \<noteq> CR" and "c \<noteq> LF"
  shows "feed r (c # cs) = feed (r\<lparr>rd_state := START_FIELD\<rparr>) (c # cs)"
  using assms by (simp add: feed.simps parse_process_char_def)

lemma join_append_head:
  "f \<noteq> [] \<Longrightarrow> \<exists>c cs. join_append f = c # cs \<and> c \<noteq> CR \<and> c \<noteq> LF"
proof (cases "\<forall>c \<in> set f. plain c")
  case True
  assume "f \<noteq> []"
  then obtain c cs where "f = c # cs" by (cases f) auto
  with True show ?thesis
    by (auto simp: join_append_plain plain_def)
next
  case False
  then show ?thesis
    by (simp add: join_append_quoted chars_distinct)
qed

lemma join_record_head:
  assumes "fs \<noteq> []" and "fs \<noteq> [[]]"
  shows "\<exists>c cs. join_record fs = c # cs \<and> c \<noteq> CR \<and> c \<noteq> LF"
proof (cases fs rule: join_record.cases)
  case 1
  with assms show ?thesis by simp
next
  case (2 f)
  with assms have "f \<noteq> []" by simp
  from join_append_head [OF this] 2 show ?thesis by simp
next
  case (3 f g gs)
  show ?thesis
  proof (cases "f = []")
    case True
    with 3 show ?thesis
      by (simp add: join_append_plain chars_distinct)
  next
    case False
    from join_append_head [OF this] 3 show ?thesis by auto
  qed
qed

lemma feed_writerow:
  "feed parse_reset (writerow fs @ rest) =
     (case feed parse_reset rest of
        Inl e \<Rightarrow> Inl e
      | Inr rows \<Rightarrow> Inr (fs # rows))"
proof -
  consider (empty) "fs = []" | (blank) "fs = [[]]" | (fields) "fs \<noteq> []" "fs \<noteq> [[]]"
    by blast
  then show ?thesis
  proof cases
    case empty
    let ?r1 = "parse_reset\<lparr>rd_state := EAT_CRNL\<rparr>"
    have le1: "\<not> line_end CR (LF # rest)" by (simp add: line_end_def chars_distinct)
    have le2: "line_end LF rest" by (simp add: line_end_def)
    have s1: "parse_process_char parse_reset (Some CR) = Inr ?r1"
      by (simp add: parse_process_char_def parse_reset_def)
    have s2: "process_chars ?r1 [Some LF, None] = Inr parse_reset"
      by (simp add: parse_process_char_def parse_reset_def)
    have "feed parse_reset (CR # LF # rest) = feed ?r1 (LF # rest)"
      by (simp add: feed_no_line_end [OF le1] s1)
    also have "\<dots> = (case feed parse_reset rest of
          Inl e \<Rightarrow> Inl e
        | Inr rows \<Rightarrow> Inr ([] # rows))"
      unfolding feed_line_end [OF le2] s2
      by (simp add: parse_reset_def cong: sum.case_cong)
    finally show ?thesis
      unfolding empty by (simp add: writerow_def LINETERMINATOR_def)
  next
    case blank
    let ?r1 = "parse_reset\<lparr>rd_state := IN_QUOTED_FIELD\<rparr>"
    let ?r2 = "parse_reset\<lparr>rd_state := QUOTE_IN_QUOTED_FIELD\<rparr>"
    have le1: "\<not> line_end QUOTECHAR (QUOTECHAR # CR # LF # rest)"
      by (simp add: line_end_def chars_distinct)
    have le2: "\<not> line_end QUOTECHAR (CR # LF # rest)"
      by (simp add: line_end_def chars_distinct)
    have s1: "parse_process_char parse_reset (Some QUOTECHAR) = Inr ?r1"
      by (simp add: parse_process_char_def start_field_def parse_reset_def chars_distinct)
    have s2: "parse_process_char ?r1 (Some QUOTECHAR) = Inr ?r2"
      by (simp add: parse_process_char_def parse_reset_def)
    have fd: "field_done ?r2" by (simp add: field_done_def)
    have "feed parse_reset (QUOTECHAR # QUOTECHAR # CR # LF # rest)
        = feed ?r1 (QUOTECHAR # CR # LF # rest)"
      by (simp add: feed_no_line_end [OF le1] s1)
    also have "\<dots> = feed ?r2 (CR # LF # rest)"
      by (simp add: feed_no_line_end [OF le2] s2)
    also have "\<dots> = (case feed parse_reset rest of
          Inl e \<Rightarrow> Inl e
        | Inr rows \<Rightarrow> Inr ([[]] # rows))"
      unfolding feed_crlf [OF fd] by (simp add: parse_reset_def cong: sum.case_cong)
    finally show ?thesis
      unfolding blank by (simp add: writerow_def LINETERMINATOR_def)
  next
    case fields
    from join_record_head [OF fields]
    obtain c cs where h: "join_record fs = c # cs" "c \<noteq> CR" "c \<noteq> LF"
      by blast
    let ?r = "parse_reset\<lparr>rd_state := START_FIELD\<rparr>"
    have "feed parse_reset (writerow fs @ rest) = feed parse_reset (c # cs @ CR # LF # rest)"
      using fields(2) h(1) by (simp add: writerow_def LINETERMINATOR_def)
    also have "\<dots> = feed ?r (c # cs @ CR # LF # rest)"
      using h(2,3) by (intro feed_start_record) (simp_all add: parse_reset_def)
    also have "\<dots> = feed ?r (join_record fs @ CR # LF # rest)"
      using h(1) by simp
    also have "\<dots> = (case feed parse_reset rest of
          Inl e \<Rightarrow> Inl e
        | Inr rows \<Rightarrow> Inr ((rd_fields ?r @ fs) # rows))"
      using fields(1) by (intro feed_record) (simp_all add: parse_reset_def)
    finally show ?thesis
      by (simp add: parse_reset_def cong: sum.case_cong)
  qed
qed

lemma csv_reader_writerows: "csv_reader (concat (map writerow rows)) = Inr rows"
  unfolding csv_reader_feed
  by (induction rows) (simp_all add: feed_parse_reset_Nil feed_writerow)


section \<open>Properties of the CSV Serializer\<close>

lemma csv_row_resolved:
  assumes "rel_vehicle db r = Some v" and "rel_service_type db r = Some t"
  shows "csv_row now r db =
     Inr [str_int (sr_id r), vehicle_number v, owner_name v, model v, name t,
          strftime (service_date r), strftime (next_service_date r),
          fst (calculate_service_status now (next_service_date r)),
          str_int (snd (calculate_service_status now (next_service_date r))),
          notes_or_empty (sr_notes r)]"
  using assms unfolding csv_row_def by (simp split: prod.splits)

lemma write_rows_resolved:
  assumes "\<forall>r \<in> set records. rel_vehicle db r \<noteq> None \<and> rel_service_type db r \<noteq> None"
  shows "\<exists>rows. write_rows clock k records db out = Inr (out @ concat (map writerow rows))
            \<and> length rows = length records
            \<and> (\<forall>i < length records. csv_row (clock (k + i)) (records ! i) db = Inr (rows ! i))"
  using assms
proof (induction records arbitrary: k out)
  case Nil
  then show ?case by simp
next
  case (Cons r records)
  from Cons.prems obtain v t where "rel_vehicle db r = Some v" "rel_service_type db r = Some t"
    by auto
  then obtain row where row: "csv_row (clock k) r db = Inr row"
    using csv_row_resolved by blast
  from Cons.IH [of "Suc k" "out @ writerow row"] Cons.prems
  obtain rows where rows:
      "write_rows clock (Suc k) records db (out @ writerow row)
         = Inr ((out @ writerow row) @ concat (map writerow rows))"
      "length rows = length records"
      "\<forall>i < length records. csv_row (clock (Suc k + i)) (records ! i) db = Inr (rows ! i)"
    by auto
  have "csv_row (clock (k + i)) ((r # records) ! i) db = Inr ((row # rows) ! i)"
    if "i < length (r # records)" for i
    using that row rows(3) by (cases i) auto
  with row rows(1,2) show ?case
    by (intro exI [of _ "row # rows"]) simp
qed

text \<open>
  C5. Reading back the text that the serializer writes for records that resolve gives
  the header row and then, position by position, the row of fields written for each
  record: as many data rows as records, in the order of the records.
\<close>

theorem generate_csv_data_round_trip:
  assumes "\<forall>r \<in> set records. rel_vehicle db r \<noteq> None \<and> rel_service_type db r \<noteq> None"
  shows "\<exists>str rows. generate_csv_data clock records db = Inr str
            \<and> csv_reader str = Inr (HEADER # rows)
            \<and> length rows = length records
            \<and> (\<forall>i < length records. csv_row (clock i) (records ! i) db = Inr (rows ! i))"
proof -
  from write_rows_resolved [OF assms, of clock 0 "writerow HEADER"]
  obtain rows where rows:
      "generate_csv_data clock records db
         = Inr (writerow HEADER @ concat (map writerow rows))"
      "length rows = length records"
      "\<forall>i < length records. csv_row (clock i) (records ! i) db = Inr (rows ! i)"
    unfolding generate_csv_data_def by auto
  have "csv_reader (writerow HEADER @ concat (map writerow rows)) = Inr (HEADER # rows)"
    using csv_reader_writerows [of "HEADER # rows"] by simp
  with rows show ?thesis by blast
qed

lemma example_csv_written:
  "generate_csv_data (\<lambda>k. example_now) [example_record, example_second_record] example_store
     = Inr example_csv"
  by code_simp

lemma example_csv_read:
  "csv_reader example_csv =
     Inr [HEADER,
          [''1'', ''KA01AB1234'', ''A. Owner'', ''Swift'', ''Oil Change'',
           ''2026-01-01 00:00:00'', ''2026-04-01 00:00:00'', ''UPCOMING'', ''90'', []],
          [''2'', ''KA01AB1234'', ''A. Owner'', ''Swift'', ''Oil Change'',
           ''2025-10-02 00:00:00'', ''2025-12-31 00:00:00'', ''OVERDUE'', ''-1'',
           ''checked, ok'']]"
  by code_simp

lemma example_store_resolved:
  "\<forall>r \<in> set [example_record, example_second_record].
     rel_vehicle example_store r \<noteq> None \<and> rel_service_type example_store r \<noteq> None"
  by (simp add: rel_vehicle_def rel_service_type_def get_vehicle_def get_service_type_def
        example_store_def example_db_def example_record_def example_second_record_def
        example_vehicle_def example_service_type_def)

theorem generate_csv_data_round_trip_witness:
  "list_all (\<lambda>r. rel_vehicle example_store r \<noteq> None \<and> rel_service_type example_store r \<noteq> None)
     [example_record, example_second_record]
   \<and> generate_csv_data (\<lambda>k. example_now) [example_record, example_second_record] example_store
       = Inr example_csv
   \<and> (\<exists>rows. csv_reader example_csv = Inr (HEADER # rows) \<and> length rows = 2)
   \<and> csv_reader example_csv =
       Inr [HEADER,
            [''1'', ''KA01AB1234'', ''A. Owner'', ''Swift'', ''Oil Change'',
             ''2026-01-01 00:00:00'', ''2026-04-01 00:00:00'', ''UPCOMING'', ''90'', []],
            [''2'', ''KA01AB1234'', ''A. Owner'', ''Swift'', ''Oil Change'',
             ''2025-10-02 00:00:00'', ''2025-12-31 00:00:00'', ''OVERDUE'', ''-1'',
             ''checked, ok'']]"
proof -
  from generate_csv_data_round_trip [OF example_store_resolved, of "\<lambda>k. example_now"]
  obtain str rows where r:
      "generate_csv_data (\<lambda>k. example_now) [example_record, example_second_record]
         example_store = Inr str"
      "csv_reader str = Inr (HEADER # rows)"
      "length rows = length [example_record, example_second_record]"
    by blast
  from r(1) have "str = example_csv" by (simp add: example_csv_written)
  with r(2,3) have "\<exists>rows. csv_reader example_csv = Inr (HEADER # rows) \<and> length rows = 2"
    by auto
  then show ?thesis
    using example_store_resolved example_csv_written example_csv_read
    by (simp add: list_all_iff)
qed


section \<open>Properties of the date format\<close>












section \<open>The layout of the written text\<close>





end
